theory Spec2Isabelle
  imports Main
begin

section \<open>Python values handled by the chat relay\<close>

text \<open>
  The inbound relay of \<^verbatim>\<open>app/web/routers/ws.py\<close> (function \<^verbatim>\<open>writer\<close> inside
  \<^verbatim>\<open>chat_ws\<close>) reads JSON frames. The values of the fields it reads are modelled as the
  JSON scalars: null, booleans, integers and strings (floats, arrays and objects as field
  values are outside the model). Text is a list of code points below 256.
\<close>

datatype jval = JNull | JBool bool | JInt int | JStr string

text \<open>Python truthiness (\<^verbatim>\<open>if x\<close>, \<^verbatim>\<open>x or y\<close>).\<close>

fun truthy :: "jval \<Rightarrow> bool" where
  "truthy JNull = False"
| "truthy (JBool b) = b"
| "truthy (JInt n) = (n \<noteq> 0)"
| "truthy (JStr s) = (s \<noteq> [])"

fun digits :: "nat \<Rightarrow> string" where
  "digits n =
     (if n < 10 then [''0123456789'' ! n]
      else digits (n div 10) @ [''0123456789'' ! (n mod 10)])"

declare digits.simps [simp del]

text \<open>\<^verbatim>\<open>str(i)\<close> and the \<^verbatim>\<open>{i}\<close> of an f-string, for an integer.\<close>

definition str_int :: "int \<Rightarrow> string" where
  "str_int i = (if i < 0 then CHR ''-'' # digits (nat (- i)) else digits (nat i))"

fun py_str :: "jval \<Rightarrow> string" where
  "py_str JNull = ''None''"
| "py_str (JBool b) = (if b then ''True'' else ''False'')"
| "py_str (JInt n) = str_int n"
| "py_str (JStr s) = s"

text \<open>
  \<^verbatim>\<open>str.isspace\<close> on the code points below 256, and \<^verbatim>\<open>str.strip()\<close>.
\<close>

definition py_isspace :: "char \<Rightarrow> bool" where
  "py_isspace c = ((of_char c :: nat) \<in> {9, 10, 11, 12, 13, 28, 29, 30, 31, 32, 133, 160})"

definition strip :: "string \<Rightarrow> string" where
  "strip s = rev (dropWhile py_isspace (rev (dropWhile py_isspace s)))"

text \<open>A decoded JSON object is a dict; \<^verbatim>\<open>d.get(k)\<close> gives \<^verbatim>\<open>None\<close> for a missing key.\<close>

type_synonym pydict = "string \<rightharpoonup> jval"

definition dget :: "pydict \<Rightarrow> string \<Rightarrow> jval" where
  "dget d k = (case d k of None \<Rightarrow> JNull | Some v \<Rightarrow> v)"

text \<open>
  What \<^verbatim>\<open>json.loads\<close> returned: a dict, or some other JSON value (on which
  \<^verbatim>\<open>.get\<close> raises AttributeError).
\<close>

datatype pyval = NonDict | Dict pydict

text \<open>
  An inbound frame: the raw text and the result of \<^verbatim>\<open>json.loads\<close> on it
  (\<open>None\<close> when it raises).
\<close>

record frame =
  raw :: string
  loads :: "pyval option"

section \<open>Session, settings and environment\<close>

record user =
  user_id :: int
  name :: "string option"
  email :: string

record conn =
  user :: "user option"
  client_host :: "string option"

record settings =
  TURNSTILE_SECRET_KEY :: "string option"

text \<open>The call sites of the backing store in one iteration of the inbound relay.\<close>

datatype call =
    CTtl | CIncrCount | CExpireCount | CExists | CIncrStrikes | CExpireStrikes
  | CSetBlock | CSetChallenge | CDelete | CPublish | CLpush | CLtrim

text \<open>
  What one iteration takes from outside the program: the clock of the backing store in
  milliseconds (\<open>now\<close>), \<^verbatim>\<open>int(time.time() * 1000)\<close> (\<open>now_ms\<close>), the value of
  \<^verbatim>\<open>uuid4()\<close>, which calls of the backing store raise, Python's \<^verbatim>\<open>int\<close> on a
  string (\<open>None\<close> when it raises), the outcome of the HTTP exchange with the
  human-verification service for a secret, a token and a remote address (\<open>False\<close> also when
  the exchange raises), and the modification time of a user's avatar file (\<open>None\<close> when the
  file does not exist or cannot be read).
\<close>

record env =
  now :: int
  now_ms :: int
  uuid :: string
  raises :: "call \<Rightarrow> bool"
  int_str :: "string \<Rightarrow> int option"
  siteverify :: "string \<Rightarrow> jval \<Rightarrow> string option \<Rightarrow> bool"
  avatar_mtime :: "int \<Rightarrow> int option"

section \<open>Wire events\<close>

record event =
  ev_id :: string
  ev_user :: "string option"
  ev_text :: string
  ev_ts :: int
  ev_avatar :: "string option"
  ev_client_id :: jval

record reply =
  rp_type :: string
  rp_error :: string
  rp_code :: string
  rp_retry_after :: "int option"
  rp_client_id :: jval

section \<open>The backing store\<close>

text \<open>
  The keys of the store hold an integer and an optional expiry time (absolute, in
  milliseconds, as the server keeps it); the history list is kept newest first. A key is
  gone once the clock is past its expiry time: at the expiry time itself it is still there.
\<close>

record store =
  kv :: "string \<rightharpoonup> int \<times> int option"
  hist :: "event list"

definition lookup :: "store \<Rightarrow> int \<Rightarrow> string \<Rightarrow> (int \<times> int option) option" where
  "lookup s t k =
     (case kv s k of
        None \<Rightarrow> None
      | Some (v, None) \<Rightarrow> Some (v, None)
      | Some (v, Some e) \<Rightarrow> if t \<le> e then Some (v, Some e) else None)"

text \<open>
  \<^verbatim>\<open>TTL\<close> replies in whole seconds, the remaining milliseconds rounded to the nearest
  second: 0 during the last half second of a key.
\<close>

definition redis_ttl :: "store \<Rightarrow> int \<Rightarrow> string \<Rightarrow> int" where
  "redis_ttl s t k =
     (case lookup s t k of
        None \<Rightarrow> - 2
      | Some (v, None) \<Rightarrow> - 1
      | Some (v, Some e) \<Rightarrow> (e - t + 500) div 1000)"

definition redis_incr :: "store \<Rightarrow> int \<Rightarrow> string \<Rightarrow> int \<times> store" where
  "redis_incr s t k =
     (case lookup s t k of
        None \<Rightarrow> (1, s\<lparr>kv := (kv s)(k \<mapsto> (1, None))\<rparr>)
      | Some (v, e) \<Rightarrow> (v + 1, s\<lparr>kv := (kv s)(k \<mapsto> (v + 1, e))\<rparr>))"

text \<open>\<^verbatim>\<open>EXPIRE\<close> and \<^verbatim>\<open>SET ... EX\<close> take their time to live in seconds.\<close>

definition redis_expire :: "store \<Rightarrow> int \<Rightarrow> string \<Rightarrow> int \<Rightarrow> store" where
  "redis_expire s t k n =
     (case lookup s t k of
        None \<Rightarrow> s
      | Some (v, e) \<Rightarrow> s\<lparr>kv := (kv s)(k \<mapsto> (v, Some (t + 1000 * n)))\<rparr>)"

definition redis_exists :: "store \<Rightarrow> int \<Rightarrow> string \<Rightarrow> int" where
  "redis_exists s t k = (case lookup s t k of None \<Rightarrow> 0 | Some x \<Rightarrow> 1)"

definition redis_set_ex :: "store \<Rightarrow> int \<Rightarrow> string \<Rightarrow> int \<Rightarrow> int \<Rightarrow> store" where
  "redis_set_ex s t k v n = s\<lparr>kv := (kv s)(k \<mapsto> (v, Some (t + 1000 * n)))\<rparr>"

definition redis_delete :: "store \<Rightarrow> string \<Rightarrow> store" where
  "redis_delete s k = s\<lparr>kv := (kv s)(k := None)\<rparr>"

definition redis_lpush :: "store \<Rightarrow> event \<Rightarrow> store" where
  "redis_lpush s x = s\<lparr>hist := x # hist s\<rparr>"

definition redis_ltrim :: "store \<Rightarrow> nat \<Rightarrow> nat \<Rightarrow> store" where
  "redis_ltrim s a b = s\<lparr>hist := take (b + 1 - a) (drop a (hist s))\<rparr>"

section \<open>The inbound relay\<close>

subsection \<open>Identity\<close>

text \<open>\<^verbatim>\<open>display_name = (user.name or user.email)[:32] if user else None\<close>\<close>

definition display_name :: "conn \<Rightarrow> string option" where
  "display_name c =
     (case user c of
        None \<Rightarrow> None
      | Some u \<Rightarrow>
          Some (take 32 (case name u of
                           None \<Rightarrow> email u
                         | Some n \<Rightarrow> if n \<noteq> [] then n else email u)))"

text \<open>The test \<^verbatim>\<open>if not display_name: continue\<close> lets a sender through when this holds.\<close>

definition authenticated :: "conn \<Rightarrow> bool" where
  "authenticated c = (case display_name c of None \<Rightarrow> False | Some d \<Rightarrow> d \<noteq> [])"

definition sender_key :: "conn \<Rightarrow> string" where
  "sender_key c =
     (case user c of
        Some u \<Rightarrow> ''user:'' @ str_int (user_id u)
      | None \<Rightarrow> ''ip:'' @ (case client_host c of Some h \<Rightarrow> h | None \<Rightarrow> ''unknown''))"

definition block_key :: "conn \<Rightarrow> string" where
  "block_key c = ''chat:block:'' @ sender_key c"

definition count_key :: "conn \<Rightarrow> string" where
  "count_key c = ''chat:count:'' @ sender_key c"

definition strikes_key :: "conn \<Rightarrow> string" where
  "strikes_key c = ''chat:strikes:'' @ sender_key c"

definition challenge_key :: "conn \<Rightarrow> string" where
  "challenge_key c = ''chat:challenge:'' @ sender_key c"

subsection \<open>Reading a frame (lines 84 to 93)\<close>

text \<open>\<^verbatim>\<open>a or b\<close>\<close>

definition por :: "jval \<Rightarrow> jval \<Rightarrow> jval" where
  "por a b = (if truthy a then a else b)"

text \<open>\<^verbatim>\<open>int(v)\<close>: \<open>None\<close> when it raises.\<close>

fun py_int :: "env \<Rightarrow> jval \<Rightarrow> int option" where
  "py_int e JNull = None"
| "py_int e (JBool b) = Some (if b then 1 else 0)"
| "py_int e (JInt n) = Some n"
| "py_int e (JStr s) = int_str e s"

text \<open>
  The local variables after the \<^verbatim>\<open>try\<close> block. \<open>p_payload\<close> is the variable
  \<^verbatim>\<open>payload\<close>, which keeps the value of an earlier iteration when \<^verbatim>\<open>json.loads\<close>
  raises (\<open>None\<close>: not bound yet).
\<close>

record parsed =
  p_payload :: "pyval option"
  msg_text :: string
  ts :: int
  client_id :: jval

definition fallback :: "env \<Rightarrow> frame \<Rightarrow> pyval option \<Rightarrow> parsed" where
  "fallback e f pv = \<lparr>p_payload = pv, msg_text = raw f, ts = now_ms e, client_id = JNull\<rparr>"

definition parse_frame :: "env \<Rightarrow> frame \<Rightarrow> pyval option \<Rightarrow> parsed" where
  "parse_frame e f pv =
     (case loads f of
        None \<Rightarrow> fallback e f pv
      | Some NonDict \<Rightarrow> fallback e f (Some NonDict)
      | Some (Dict d) \<Rightarrow>
          (case py_int e (por (dget d ''ts'') (JInt 0)) of
             None \<Rightarrow> fallback e f (Some (Dict d))
           | Some n \<Rightarrow>
               \<lparr>p_payload = Some (Dict d),
                msg_text = strip (py_str (por (dget d ''text'') (JStr []))),
                ts = (if n \<noteq> 0 then n else now_ms e),
                client_id = dget d ''id''\<rparr>))"

subsection \<open>Error replies\<close>

definition too_long_reply :: "jval \<Rightarrow> reply" where
  "too_long_reply cid =
     \<lparr>rp_type = ''error'', rp_error = ''Message exceeds 2000 characters.'',
      rp_code = ''too_long'', rp_retry_after = None, rp_client_id = cid\<rparr>"

definition blocked_ttl_reply :: "int \<Rightarrow> jval \<Rightarrow> reply" where
  "blocked_ttl_reply ttl cid =
     \<lparr>rp_type = ''error'',
      rp_error = ''You'' @ [CHR 0x27] @ ''re sending messages too fast. Temporarily blocked. Try again in ''
                 @ str_int ttl @ '' seconds.'',
      rp_code = ''blocked'', rp_retry_after = Some ttl, rp_client_id = cid\<rparr>"

definition blocked_reply :: "jval \<Rightarrow> reply" where
  "blocked_reply cid =
     \<lparr>rp_type = ''error'',
      rp_error = ''Temporarily blocked for excessive messaging. Please wait a minute.'',
      rp_code = ''blocked'', rp_retry_after = Some 60, rp_client_id = cid\<rparr>"

definition challenge_reply :: "jval \<Rightarrow> reply" where
  "challenge_reply cid =
     \<lparr>rp_type = ''error'',
      rp_error = ''Additional verification required. Please complete the challenge.'',
      rp_code = ''challenge_required'', rp_retry_after = None, rp_client_id = cid\<rparr>"

subsection \<open>Rate limiting (lines 107 to 180)\<close>

text \<open>
  The \<^verbatim>\<open>try\<close> block of the rate limiter ends in one of three ways: a call raised and
  the \<^verbatim>\<open>except\<close> clause lets the message through, an error reply was sent and the
  loop went on to the next frame (\<^verbatim>\<open>continue\<close>), or the block ran to its end. The
  store as changed so far is kept in every case. The frames handed to
  \<^verbatim>\<open>websocket.send_text\<close> are recorded; a send that raises is ignored by the code
  at every call site and changes nothing else.
\<close>

datatype 'a outcome = Raised store | Rejected store reply | Passed store 'a

definition bind :: "'a outcome \<Rightarrow> (store \<Rightarrow> 'a \<Rightarrow> 'b outcome) \<Rightarrow> 'b outcome" where
  "bind m k =
     (case m of Raised s \<Rightarrow> Raised s | Rejected s r \<Rightarrow> Rejected s r | Passed s a \<Rightarrow> k s a)"

text \<open>Lines 114 to 127: \<^verbatim>\<open>ttl = await redis.ttl(block_key); if ttl and ttl > 0\<close>.\<close>

definition block_gate :: "conn \<Rightarrow> env \<Rightarrow> jval \<Rightarrow> store \<Rightarrow> unit outcome" where
  "block_gate c e cid s =
     (if raises e CTtl then Raised s
      else let ttl = redis_ttl s (now e) (block_key c) in
        if ttl \<noteq> 0 \<and> ttl > 0 then Rejected s (blocked_ttl_reply ttl cid)
        else Passed s ())"

text \<open>Lines 129 to 134: the burst counter and the pending challenge.\<close>

definition count_gate :: "conn \<Rightarrow> env \<Rightarrow> store \<Rightarrow> (int \<times> int) outcome" where
  "count_gate c e s =
     (if raises e CIncrCount then Raised s
      else let (cnt, s1) = redis_incr s (now e) (count_key c) in
        if cnt = 1 \<and> raises e CExpireCount then Raised s1
        else let s2 = (if cnt = 1 then redis_expire s1 (now e) (count_key c) 10 else s1) in
          if raises e CExists then Raised s2
          else Passed s2 (cnt, redis_exists s2 (now e) (challenge_key c)))"

text \<open>Lines 135 to 154: strikes, block and challenge.\<close>

definition escalate :: "conn \<Rightarrow> env \<Rightarrow> jval \<Rightarrow> int \<Rightarrow> int \<Rightarrow> store \<Rightarrow> int outcome" where
  "escalate c e cid cnt require_challenge s =
     (if cnt > 5 then
        if raises e CIncrStrikes then Raised s
        else let (strikes, s1) = redis_incr s (now e) (strikes_key c) in
          if strikes = 1 \<and> raises e CExpireStrikes then Raised s1
          else let s2 = (if strikes = 1 then redis_expire s1 (now e) (strikes_key c) 120 else s1) in
            if strikes \<ge> 3 then
              if raises e CSetBlock then Raised s2
              else Rejected (redis_set_ex s2 (now e) (block_key c) 1 60) (blocked_reply cid)
            else
              if raises e CSetChallenge then Raised s2
              else Passed (redis_set_ex s2 (now e) (challenge_key c) 1 120) 1
      else Passed s require_challenge)"

text \<open>\<^verbatim>\<open>verify_turnstile\<close> of \<^verbatim>\<open>app/core/turnstile.py\<close>.\<close>

definition verify_turnstile :: "settings \<Rightarrow> env \<Rightarrow> jval \<Rightarrow> string option \<Rightarrow> bool" where
  "verify_turnstile cfg e token remoteip =
     (case TURNSTILE_SECRET_KEY cfg of
        None \<Rightarrow> True
      | Some k \<Rightarrow>
          if k = [] then True
          else if \<not> truthy token then False
          else siteverify e k token
                 (case remoteip of None \<Rightarrow> None | Some h \<Rightarrow> if h \<noteq> [] then Some h else None))"

text \<open>
  Lines 156 to 177. \<^verbatim>\<open>payload.get("cf")\<close> raises when \<^verbatim>\<open>payload\<close> is not bound
  or is not a dict; the failure of \<^verbatim>\<open>redis.delete\<close> is ignored on its own.
\<close>

definition challenge_gate ::
  "settings \<Rightarrow> conn \<Rightarrow> env \<Rightarrow> pyval option \<Rightarrow> jval \<Rightarrow> int \<Rightarrow> store \<Rightarrow> unit outcome" where
  "challenge_gate cfg c e pv cid require_challenge s =
     (case pv of
        None \<Rightarrow> Raised s
      | Some NonDict \<Rightarrow> Raised s
      | Some (Dict d) \<Rightarrow>
          let cf_token = dget d ''cf'' in
          if require_challenge \<noteq> 0 then
            let ok = (if truthy cf_token then verify_turnstile cfg e cf_token (client_host c)
                      else False) in
            if \<not> ok then Rejected s (challenge_reply cid)
            else Passed (if raises e CDelete then s else redis_delete s (challenge_key c)) ()
          else Passed s ())"

definition rate_limit ::
  "settings \<Rightarrow> conn \<Rightarrow> env \<Rightarrow> pyval option \<Rightarrow> jval \<Rightarrow> store \<Rightarrow> unit outcome" where
  "rate_limit cfg c e pv cid s =
     bind (block_gate c e cid s) (\<lambda>s1 u.
     bind (count_gate c e s1) (\<lambda>s2 (cnt, require_challenge).
     bind (escalate c e cid cnt require_challenge s2) (\<lambda>s3 require_challenge.
     challenge_gate cfg c e pv cid require_challenge s3)))"

subsection \<open>Publishing (lines 181 to 191)\<close>

text \<open>\<^verbatim>\<open>_avatar_url(getattr(user, "id", None))\<close>\<close>

definition avatar_url :: "env \<Rightarrow> int option \<Rightarrow> string option" where
  "avatar_url e uid =
     (case uid of
        None \<Rightarrow> None
      | Some i \<Rightarrow>
          if i = 0 then None
          else (case avatar_mtime e i of
                  None \<Rightarrow> None
                | Some m \<Rightarrow> Some (''/static/avatars/'' @ str_int i @ ''.webp?v='' @ str_int m)))"

definition make_event :: "conn \<Rightarrow> env \<Rightarrow> parsed \<Rightarrow> event" where
  "make_event c e p =
     \<lparr>ev_id = uuid e, ev_user = display_name c, ev_text = msg_text p, ev_ts = ts p,
      ev_avatar = avatar_url e (map_option user_id (user c)), ev_client_id = client_id p\<rparr>"

text \<open>\<^verbatim>\<open>lpush\<close> then \<^verbatim>\<open>ltrim(HISTORY_KEY, 0, 49)\<close>, inside one \<^verbatim>\<open>try\<close>.\<close>

definition log_history :: "env \<Rightarrow> event \<Rightarrow> store \<Rightarrow> store" where
  "log_history e ev s =
     (if raises e CLpush then s
      else let s1 = redis_lpush s ev in
        if raises e CLtrim then s1 else redis_ltrim s1 0 49)"

subsection \<open>The loop\<close>

text \<open>
  The state of the loop between two frames: the local variable \<^verbatim>\<open>payload\<close>, the
  backing store, and whether the loop is still running. What one iteration hands to the
  socket and to the broadcast channel is its output.
\<close>

record wstate =
  payload :: "pyval option"
  st :: store
  running :: bool

record out =
  sent :: "reply list"
  published :: "event list"

text \<open>
  Lines 181 to 191. \<^verbatim>\<open>redis.publish\<close> is not inside a \<^verbatim>\<open>try\<close> of its own: when
  it raises, the exception leaves the loop.
\<close>

definition publish :: "conn \<Rightarrow> env \<Rightarrow> parsed \<Rightarrow> wstate \<Rightarrow> wstate \<times> out" where
  "publish c e p w =
     (if raises e CPublish then (w\<lparr>running := False\<rparr>, \<lparr>sent = [], published = []\<rparr>)
      else let ev = make_event c e p in
        (w\<lparr>st := log_history e ev (st w)\<rparr>, \<lparr>sent = [], published = [ev]\<rparr>))"

definition writer_iter :: "settings \<Rightarrow> conn \<Rightarrow> env \<Rightarrow> frame \<Rightarrow> wstate \<Rightarrow> wstate \<times> out" where
  "writer_iter cfg c e f w =
     (let p = parse_frame e f (payload w); w1 = w\<lparr>payload := p_payload p\<rparr> in
      if msg_text p = [] then (w1, \<lparr>sent = [], published = []\<rparr>)
      else if \<not> authenticated c then (w1, \<lparr>sent = [], published = []\<rparr>)
      else if length (msg_text p) > 2000 then
        (w1, \<lparr>sent = [too_long_reply (client_id p)], published = []\<rparr>)
      else
        (case rate_limit cfg c e (p_payload p) (client_id p) (st w) of
           Rejected s1 r \<Rightarrow> (w1\<lparr>st := s1\<rparr>, \<lparr>sent = [r], published = []\<rparr>)
         | Raised s1 \<Rightarrow> publish c e p (w1\<lparr>st := s1\<rparr>)
         | Passed s1 u \<Rightarrow> publish c e p (w1\<lparr>st := s1\<rparr>)))"

text \<open>
  The \<^verbatim>\<open>while True\<close> loop over the frames received until the client disconnects. An
  exception that leaves an iteration is caught outside the loop (lines 192 to 195): the
  frames that follow are not read.
\<close>

fun writer ::
  "settings \<Rightarrow> conn \<Rightarrow> (env \<times> frame) list \<Rightarrow> wstate \<Rightarrow> wstate \<times> out list" where
  "writer cfg c [] w = (w, [])"
| "writer cfg c ((e, f) # rest) w =
     (if \<not> running w then (w, [])
      else let (w1, o1) = writer_iter cfg c e f w;
               (w2, os) = writer cfg c rest w1
           in (w2, o1 # os))"

section \<open>Notions used by the properties\<close>

text \<open>
  The text, the correlation id and the event of a frame do not depend on the value the
  variable \<^verbatim>\<open>payload\<close> had before the frame was read.
\<close>

definition text_of :: "env \<Rightarrow> frame \<Rightarrow> string" where
  "text_of e f = msg_text (parse_frame e f None)"

definition cid_of :: "env \<Rightarrow> frame \<Rightarrow> jval" where
  "cid_of e f = client_id (parse_frame e f None)"

definition ts_of :: "env \<Rightarrow> frame \<Rightarrow> int" where
  "ts_of e f = ts (parse_frame e f None)"

definition event_of :: "conn \<Rightarrow> env \<Rightarrow> frame \<Rightarrow> event" where
  "event_of c e f = make_event c e (parse_frame e f None)"

text \<open>A frame that passes the three validation tests of lines 94 to 105.\<close>

definition valid :: "conn \<Rightarrow> env \<Rightarrow> frame \<Rightarrow> bool" where
  "valid c e f = (text_of e f \<noteq> [] \<and> authenticated c \<and> length (text_of e f) \<le> 2000)"

text \<open>No call of the backing store raises during the iteration.\<close>

definition no_raise :: "env \<Rightarrow> bool" where
  "no_raise e =
     list_all (\<lambda>k. \<not> raises e k)
       [CTtl, CIncrCount, CExpireCount, CExists, CIncrStrikes, CExpireStrikes,
        CSetBlock, CSetChallenge, CDelete, CPublish, CLpush, CLtrim]"

text \<open>
  The entry of a counter after \<^verbatim>\<open>incr\<close> followed, when the result is 1, by
  \<^verbatim>\<open>expire\<close> with \<open>n\<close> seconds.
\<close>

definition bumped :: "store \<Rightarrow> int \<Rightarrow> string \<Rightarrow> int \<Rightarrow> int \<times> int option" where
  "bumped s t k n =
     (case lookup s t k of
        None \<Rightarrow> (1, Some (t + 1000 * n))
      | Some (v, ex) \<Rightarrow> if v + 1 = 1 then (1, Some (t + 1000 * n)) else (v + 1, ex))"

text \<open>The store at the end of the rate limiter, however it ended.\<close>

fun store_of :: "'a outcome \<Rightarrow> store" where
  "store_of (Raised s) = s"
| "store_of (Rejected s r) = s"
| "store_of (Passed s a) = s"

text \<open>The sender has no rate-limit state: none of its four keys is in the store.\<close>

definition fresh :: "conn \<Rightarrow> store \<Rightarrow> bool" where
  "fresh c s =
     (kv s (count_key c) = None \<and> kv s (strikes_key c) = None \<and>
      kv s (challenge_key c) = None \<and> kv s (block_key c) = None)"

text \<open>The verification token of a decoded frame passes human verification.\<close>

definition token_passes :: "settings \<Rightarrow> conn \<Rightarrow> env \<Rightarrow> pydict \<Rightarrow> bool" where
  "token_passes cfg c e d =
     (truthy (dget d ''cf'') \<and> verify_turnstile cfg e (dget d ''cf'') (client_host c))"

text \<open>The processing times of a list of inputs.\<close>

definition times :: "(env \<times> frame) list \<Rightarrow> int list" where
  "times inp = map (\<lambda>(e, f). now e) inp"


text \<open>
  A burst violation: a valid frame of a sender that is not blocked brings the burst counter
  above 5. A run of frames is quiet when none of them is a burst violation.
\<close>

definition violation :: "conn \<Rightarrow> env \<Rightarrow> frame \<Rightarrow> wstate \<Rightarrow> bool" where
  "violation c e f w =
     (valid c e f \<and> redis_ttl (st w) (now e) (block_key c) \<le> 0 \<and>
      fst (redis_incr (st w) (now e) (count_key c)) > 5)"

fun quiet :: "settings \<Rightarrow> conn \<Rightarrow> (env \<times> frame) list \<Rightarrow> wstate \<Rightarrow> bool" where
  "quiet cfg c [] w = True"
| "quiet cfg c ((e, f) # rest) w =
     (\<not> violation c e f w \<and> quiet cfg c rest (fst (writer_iter cfg c e f w)))"

text \<open>Two decoded objects that differ at most in the fields \<^verbatim>\<open>user\<close> and \<^verbatim>\<open>username\<close>.\<close>

definition same_but_user :: "pydict \<Rightarrow> pydict \<Rightarrow> bool" where
  "same_but_user d d' = (\<forall>k. k \<noteq> ''user'' \<and> k \<noteq> ''username'' \<longrightarrow> d' k = d k)"

text \<open>
  The same for the value of the variable \<^verbatim>\<open>payload\<close>: two objects that differ at most
  in these fields, or the same value.
\<close>

fun pv_rel :: "pyval option \<Rightarrow> pyval option \<Rightarrow> bool" where
  "pv_rel (Some (Dict d)) (Some (Dict d')) = same_but_user d d'"
| "pv_rel pv pv' = (pv' = pv)"

text \<open>
  Two frames that differ at most in the fields \<^verbatim>\<open>user\<close> and \<^verbatim>\<open>username\<close>: the same
  frame, or two frames that decode to such objects, whose field \<^verbatim>\<open>ts\<close> is one that
  \<^verbatim>\<open>int\<close> converts.
\<close>

definition user_variant :: "env \<Rightarrow> frame \<Rightarrow> frame \<Rightarrow> bool" where
  "user_variant e f f' =
     (f' = f \<or>
      (case loads f of
         Some (Dict d) \<Rightarrow>
           (case loads f' of
              Some (Dict d') \<Rightarrow> same_but_user d d' \<and> py_int e (por (dget d ''ts'') (JInt 0)) \<noteq> None
            | _ \<Rightarrow> False)
       | _ \<Rightarrow> False))"

section \<open>Concrete sessions and frames\<close>

definition alice :: conn where
  "alice = \<lparr>user = Some \<lparr>user_id = 1, name = Some ''alice'', email = ''alice@example.org''\<rparr>,
            client_host = Some ''10.0.0.1''\<rparr>"

definition anonymous :: conn where
  "anonymous = \<lparr>user = None, client_host = Some ''10.0.0.2''\<rparr>"

definition cfg0 :: settings where
  "cfg0 = \<lparr>TURNSTILE_SECRET_KEY = Some ''secret''\<rparr>"

text \<open>
  An environment at second \<open>t\<close> in which no call raises and the verification service
  accepts exactly the token \<^verbatim>\<open>good\<close>. No string is a valid integer for it: the only
  string converted below is \<^verbatim>\<open>x\<close>.
\<close>

definition env_at :: "int \<Rightarrow> env" where
  "env_at t =
     \<lparr>now = 1000 * t, now_ms = 1000 * t, uuid = ''id'', raises = (\<lambda>k. False),
      int_str = (\<lambda>s. None), siteverify = (\<lambda>k tok ip. tok = JStr ''good''),
      avatar_mtime = (\<lambda>i. None)\<rparr>"

text \<open>The same, with the call \<open>k\<close> of the backing store raising.\<close>

definition env_failing :: "call \<Rightarrow> int \<Rightarrow> env" where
  "env_failing k t = (env_at t)\<lparr>raises := (\<lambda>k'. k' = k)\<rparr>"

definition hi :: frame where
  \<open>hi = \<lparr>raw = ''{"text": "hi"}'', loads = Some (Dict [''text'' \<mapsto> JStr ''hi''])\<rparr>\<close>

definition hi_verified :: frame where
  \<open>hi_verified =
     \<lparr>raw = ''{"text": "hi", "cf": "good"}'',
      loads = Some (Dict [''text'' \<mapsto> JStr ''hi'', ''cf'' \<mapsto> JStr ''good''])\<rparr>\<close>

text \<open>Frames that name a user, and two whose field \<^verbatim>\<open>ts\<close> is not a number.\<close>

definition hi_as_a :: frame where
  \<open>hi_as_a =
     \<lparr>raw = ''{"text": "hi", "user": "a"}'',
      loads = Some (Dict [''text'' \<mapsto> JStr ''hi'', ''user'' \<mapsto> JStr ''a''])\<rparr>\<close>

definition hi_as_b :: frame where
  \<open>hi_as_b =
     \<lparr>raw = ''{"text": "hi", "user": "b"}'',
      loads = Some (Dict [''text'' \<mapsto> JStr ''hi'', ''user'' \<mapsto> JStr ''b''])\<rparr>\<close>

definition hi_ts_x :: pydict where
  "hi_ts_x = [''text'' \<mapsto> JStr ''hi'', ''ts'' \<mapsto> JStr ''x'']"

definition bad_ts_as_a :: frame where
  \<open>bad_ts_as_a =
     \<lparr>raw = ''{"text": "hi", "ts": "x", "user": "a"}'',
      loads = Some (Dict (hi_ts_x(''user'' \<mapsto> JStr ''a'')))\<rparr>\<close>

definition bad_ts_as_b :: frame where
  \<open>bad_ts_as_b =
     \<lparr>raw = ''{"text": "hi", "ts": "x", "user": "b"}'',
      loads = Some (Dict (hi_ts_x(''user'' \<mapsto> JStr ''b'')))\<rparr>\<close>

definition plain :: frame where
  "plain = \<lparr>raw = ''hello'', loads = None\<rparr>"

definition oversized :: frame where
  "oversized = \<lparr>raw = replicate 2001 CHR ''a'', loads = None\<rparr>"



definition empty_store :: store where
  "empty_store = \<lparr>kv = Map.empty, hist = []\<rparr>"

definition w0 :: wstate where
  "w0 = \<lparr>payload = None, st = empty_store, running = True\<rparr>"

text \<open>A burst: the frame \<open>f\<close> received \<open>n\<close> times during second \<open>t\<close>.\<close>

definition burst :: "nat \<Rightarrow> int \<Rightarrow> frame \<Rightarrow> (env \<times> frame) list" where
  "burst n t f = replicate n (env_at t, f)"

section \<open>Basic facts\<close>

lemma keys_distinct [simp]:
  "block_key c \<noteq> count_key c" "block_key c \<noteq> strikes_key c" "block_key c \<noteq> challenge_key c"
  "count_key c \<noteq> block_key c" "count_key c \<noteq> strikes_key c" "count_key c \<noteq> challenge_key c"
  "strikes_key c \<noteq> block_key c" "strikes_key c \<noteq> count_key c" "strikes_key c \<noteq> challenge_key c"
  "challenge_key c \<noteq> block_key c" "challenge_key c \<noteq> count_key c" "challenge_key c \<noteq> strikes_key c"
  by (simp_all add: block_key_def count_key_def strikes_key_def challenge_key_def)

lemma no_raise_iff: "no_raise e \<longleftrightarrow> (\<forall>k. \<not> raises e k)"
proof
  assume h: "no_raise e"
  show "\<forall>k. \<not> raises e k"
  proof
    fix k show "\<not> raises e k" using h by (cases k) (simp_all add: no_raise_def)
  qed
next
  assume "\<forall>k. \<not> raises e k" then show "no_raise e" by (simp add: no_raise_def)
qed

lemma parse_frame_indep:
  "msg_text (parse_frame e f pv) = text_of e f"
  "client_id (parse_frame e f pv) = cid_of e f"
  "ts (parse_frame e f pv) = ts_of e f"
  by (simp_all add: parse_frame_def fallback_def text_of_def cid_of_def ts_of_def split: option.splits pyval.splits)

lemma make_event_indep: "make_event c e (parse_frame e f pv) = event_of c e f"
  by (simp add: make_event_def event_of_def parse_frame_indep)

lemma count_gate_ok:
  assumes "\<not> raises e CIncrCount" "\<not> raises e CExpireCount" "\<not> raises e CExists"
  shows "count_gate c e s =
    Passed (s\<lparr>kv := (kv s)(count_key c \<mapsto> bumped s (now e) (count_key c) 10)\<rparr>)
      (fst (bumped s (now e) (count_key c) 10), redis_exists s (now e) (challenge_key c))"
  using assms
  by (auto simp: count_gate_def redis_incr_def redis_expire_def bumped_def redis_exists_def lookup_def Let_def
      split: option.splits prod.splits)

lemma escalate_ok:
  assumes "\<not> raises e CIncrStrikes" "\<not> raises e CExpireStrikes" "\<not> raises e CSetBlock" "\<not> raises e CSetChallenge"
  shows "escalate c e cid cnt rq s =
    (if cnt > 5 then
       let sa = bumped s (now e) (strikes_key c) 120;
           s2 = s\<lparr>kv := (kv s)(strikes_key c \<mapsto> sa)\<rparr>
       in if fst sa \<ge> 3
          then Rejected (s2\<lparr>kv := (kv s2)(block_key c \<mapsto> (1, Some (now e + 60000)))\<rparr>) (blocked_reply cid)
          else Passed (s2\<lparr>kv := (kv s2)(challenge_key c \<mapsto> (1, Some (now e + 120000)))\<rparr>) 1
     else Passed s rq)"
  using assms
  by (auto simp: escalate_def redis_incr_def redis_expire_def redis_set_ex_def bumped_def lookup_def Let_def
      split: option.splits prod.splits)

lemma block_gate_ok:
  assumes "\<not> raises e CTtl"
  shows "block_gate c e cid s =
    (if redis_ttl s (now e) (block_key c) > 0
     then Rejected s (blocked_ttl_reply (redis_ttl s (now e) (block_key c)) cid)
     else Passed s ())"
  using assms by (auto simp: block_gate_def Let_def)

lemma lookup_other [simp]:
  "k' \<noteq> k \<Longrightarrow> lookup (s\<lparr>kv := (kv s)(k \<mapsto> x)\<rparr>) t k' = lookup s t k'"
  by (simp add: lookup_def)

lemma rate_limit_ok:
  assumes "no_raise e"
  shows "rate_limit cfg c e pv cid s =
    (if redis_ttl s (now e) (block_key c) > 0
     then Rejected s (blocked_ttl_reply (redis_ttl s (now e) (block_key c)) cid)
     else
       let ca = bumped s (now e) (count_key c) 10;
           s1 = s\<lparr>kv := (kv s)(count_key c \<mapsto> ca)\<rparr>
       in if fst ca > 5 then
            let sa = bumped s (now e) (strikes_key c) 120;
                s2 = s1\<lparr>kv := (kv s1)(strikes_key c \<mapsto> sa)\<rparr>
            in if fst sa \<ge> 3
               then Rejected (s2\<lparr>kv := (kv s2)(block_key c \<mapsto> (1, Some (now e + 60000)))\<rparr>) (blocked_reply cid)
               else challenge_gate cfg c e pv cid 1
                      (s2\<lparr>kv := (kv s2)(challenge_key c \<mapsto> (1, Some (now e + 120000)))\<rparr>)
          else challenge_gate cfg c e pv cid (redis_exists s (now e) (challenge_key c)) s1)"
proof -
  have nr: "\<And>k. \<not> raises e k" using assms by (simp add: no_raise_iff)
  have b: "bumped (s\<lparr>kv := (kv s)(count_key c \<mapsto> x)\<rparr>) (now e) (strikes_key c) 120
         = bumped s (now e) (strikes_key c) 120" for x
    by (simp add: bumped_def)
  show ?thesis
    by (simp add: rate_limit_def block_gate_ok count_gate_ok escalate_ok nr bind_def b Let_def)
qed

lemma writer_iter_rejected:
  assumes "text_of e f = [] \<or> \<not> authenticated c \<or> length (text_of e f) > 2000"
  shows "writer_iter cfg c e f w =
     (w\<lparr>payload := p_payload (parse_frame e f (payload w))\<rparr>,
      \<lparr>sent = (if text_of e f \<noteq> [] \<and> authenticated c then [too_long_reply (cid_of e f)] else []),
       published = []\<rparr>)"
  using assms by (auto simp: writer_iter_def Let_def parse_frame_indep)

lemma text_of_oversized: "text_of e oversized = replicate 2001 CHR ''a''"
  by (simp add: text_of_def parse_frame_def fallback_def oversized_def)

lemma authenticated_alice: "authenticated alice"
  by (simp add: authenticated_def display_name_def alice_def)

lemma not_authenticated_anonymous: "\<not> authenticated anonymous"
  by (simp add: authenticated_def display_name_def anonymous_def)













lemma writer_not_running: "\<not> running w \<Longrightarrow> writer cfg c inp w = (w, [])"
  by (cases inp) auto

lemma writer_snoc:
  "writer cfg c (xs @ [(e, f)]) w =
     (let (w1, os) = writer cfg c xs w in
      if running w1 then
        let (w2, o2) = writer_iter cfg c e f w1 in (w2, os @ [o2])
      else (w1, os))"
proof (induction xs arbitrary: w)
  case Nil
  then show ?case by (simp split: prod.splits)
next
  case (Cons x xs)
  obtain e' f' where x: "x = (e', f')" by (cases x)
  show ?case
  proof (cases "running w")
    case False
    then show ?thesis by (simp add: x)
  next
    case True
    then show ?thesis
      by (simp add: x Cons.IH Let_def split: prod.splits)
  qed
qed

lemma log_history_eq:
  "\<not> raises e CLpush \<Longrightarrow> \<not> raises e CLtrim \<Longrightarrow>
   log_history e ev s = s\<lparr>hist := take 50 (ev # hist s)\<rparr>"
  by (simp add: log_history_def redis_lpush_def redis_ltrim_def Let_def)

lemma publish_ok:
  assumes "no_raise e"
  shows "publish c e (parse_frame e f pv) w =
     (w\<lparr>st := (st w)\<lparr>hist := take 50 (event_of c e f # hist (st w))\<rparr>\<rparr>,
      \<lparr>sent = [], published = [event_of c e f]\<rparr>)"
  using assms by (simp add: publish_def no_raise_iff log_history_eq make_event_indep Let_def)

lemma writer_iter_valid:
  assumes "valid c e f"
  shows "writer_iter cfg c e f w =
     (let p = parse_frame e f (payload w); w1 = w\<lparr>payload := p_payload p\<rparr> in
      case rate_limit cfg c e (p_payload p) (cid_of e f) (st w) of
        Rejected s1 r \<Rightarrow> (w1\<lparr>st := s1\<rparr>, \<lparr>sent = [r], published = []\<rparr>)
      | Raised s1 \<Rightarrow> publish c e p (w1\<lparr>st := s1\<rparr>)
      | Passed s1 u \<Rightarrow> publish c e p (w1\<lparr>st := s1\<rparr>))"
  using assms by (simp add: writer_iter_def valid_def Let_def parse_frame_indep)

lemma challenge_gate_0:
  "challenge_gate cfg c e pv cid 0 s = Raised s \<or> challenge_gate cfg c e pv cid 0 s = Passed s ()"
  by (simp add: challenge_gate_def Let_def split: option.splits pyval.splits)

lemma step_within_limit:
  assumes v: "valid c e f" and nr: "no_raise e"
    and b: "redis_ttl (st w) (now e) (block_key c) \<le> 0"
    and n: "fst (bumped (st w) (now e) (count_key c) 10) \<le> 5"
    and ch: "lookup (st w) (now e) (challenge_key c) = None"
  shows "writer_iter cfg c e f w =
     (w\<lparr>payload := p_payload (parse_frame e f (payload w)),
        st := (st w)\<lparr>kv := (kv (st w))(count_key c \<mapsto> bumped (st w) (now e) (count_key c) 10),
                     hist := take 50 (event_of c e f # hist (st w))\<rparr>\<rparr>,
      \<lparr>sent = [], published = [event_of c e f]\<rparr>)"
proof -
  let ?pv = "p_payload (parse_frame e f (payload w))"
  let ?s1 = "(st w)\<lparr>kv := (kv (st w))(count_key c \<mapsto> bumped (st w) (now e) (count_key c) 10)\<rparr>"
  have rl: "rate_limit cfg c e ?pv (cid_of e f) (st w) = challenge_gate cfg c e ?pv (cid_of e f) 0 ?s1"
    using b n ch by (simp add: rate_limit_ok[OF nr] Let_def redis_exists_def)
  from challenge_gate_0[of cfg c e ?pv "cid_of e f" ?s1]
  show ?thesis
    by (auto simp: writer_iter_valid[OF v] rl Let_def publish_ok[OF nr])
qed





lemma redis_ttl_absent: "kv s k = None \<Longrightarrow> redis_ttl s t k = - 2"
  by (simp add: redis_ttl_def lookup_def)

lemma lookup_absent: "kv s k = None \<Longrightarrow> lookup s t k = None"
  by (simp add: lookup_def)




lemma fresh_w0: "fresh c (st w0)"
  by (simp add: fresh_def w0_def empty_store_def)

lemma text_of_hi: "text_of e hi = ''hi''"
  by (simp add: text_of_def parse_frame_def hi_def dget_def por_def strip_def py_isspace_def)

lemma text_of_hi_verified: "text_of e hi_verified = ''hi''"
  by (simp add: text_of_def parse_frame_def hi_verified_def dget_def por_def strip_def py_isspace_def)

lemma valid_hi: "valid alice e hi" "valid alice e hi_verified"
  by (simp_all add: valid_def text_of_hi text_of_hi_verified authenticated_alice)

lemma no_raise_env_at: "no_raise (env_at t)"
  by (simp add: no_raise_def env_at_def)

lemma burst_from:
  assumes "running w"
    and "kv (st w) (strikes_key c) = None" "kv (st w) (challenge_key c) = None"
        "kv (st w) (block_key c) = None"
    and "kv (st w) (count_key c) = Some (int m, Some E)" and "1 \<le> m" and "m + length inp \<le> 5"
    and "\<And>e f. (e, f) \<in> set inp \<Longrightarrow> valid c e f \<and> no_raise e \<and> now e \<le> E"
  shows "snd (writer cfg c inp w) = map (\<lambda>(e, f). \<lparr>sent = [], published = [event_of c e f]\<rparr>) inp
       \<and> running (fst (writer cfg c inp w))
       \<and> kv (st (fst (writer cfg c inp w))) (strikes_key c) = None
       \<and> kv (st (fst (writer cfg c inp w))) (challenge_key c) = None
       \<and> kv (st (fst (writer cfg c inp w))) (block_key c) = None
       \<and> kv (st (fst (writer cfg c inp w))) (count_key c) = Some (int (m + length inp), Some E)"
  using assms
proof (induction inp arbitrary: w m)
  case Nil
  then show ?case by simp
next
  case (Cons x rest)
  obtain e f where x: "x = (e, f)" by (cases x)
  have v: "valid c e f" and nr: "no_raise e" and t: "now e \<le> E"
    using Cons.prems(8)[of e f] by (simp_all add: x)
  have b: "bumped (st w) (now e) (count_key c) 10 = (int (Suc m), Some E)"
    using Cons.prems(5,6) t by (simp add: bumped_def lookup_def)
  have step: "writer_iter cfg c e f w =
     (w\<lparr>payload := p_payload (parse_frame e f (payload w)),
        st := (st w)\<lparr>kv := (kv (st w))(count_key c \<mapsto> bumped (st w) (now e) (count_key c) 10),
                     hist := take 50 (event_of c e f # hist (st w))\<rparr>\<rparr>,
      \<lparr>sent = [], published = [event_of c e f]\<rparr>)"
  proof (rule step_within_limit[OF v nr])
    show "redis_ttl (st w) (now e) (block_key c) \<le> 0" using Cons.prems(4) by (simp add: redis_ttl_absent)
    show "fst (bumped (st w) (now e) (count_key c) 10) \<le> 5" using b Cons.prems(7) by simp
    show "lookup (st w) (now e) (challenge_key c) = None" using Cons.prems(3) by (simp add: lookup_absent)
  qed
  define w1 where "w1 = fst (writer_iter cfg c e f w)"
  have w1: "running w1" "kv (st w1) (strikes_key c) = None" "kv (st w1) (challenge_key c) = None"
    "kv (st w1) (block_key c) = None" "kv (st w1) (count_key c) = Some (int (Suc m), Some E)"
    using Cons.prems(1-4) b by (simp_all add: w1_def step)
  have ih: "snd (writer cfg c rest w1) = map (\<lambda>(e, f). \<lparr>sent = [], published = [event_of c e f]\<rparr>) rest
       \<and> running (fst (writer cfg c rest w1))
       \<and> kv (st (fst (writer cfg c rest w1))) (strikes_key c) = None
       \<and> kv (st (fst (writer cfg c rest w1))) (challenge_key c) = None
       \<and> kv (st (fst (writer cfg c rest w1))) (block_key c) = None
       \<and> kv (st (fst (writer cfg c rest w1))) (count_key c) = Some (int (Suc m + length rest), Some E)"
  proof (rule Cons.IH[OF w1])
    show "1 \<le> Suc m" by simp
    show "Suc m + length rest \<le> 5" using Cons.prems(7) by simp
    fix e' f' assume "(e', f') \<in> set rest"
    then show "valid c e' f' \<and> no_raise e' \<and> now e' \<le> E" using Cons.prems(8)[of e' f'] by simp
  qed
  have wr: "writer cfg c (x # rest) w =
       (fst (writer cfg c rest w1), snd (writer_iter cfg c e f w) # snd (writer cfg c rest w1))"
    using Cons.prems(1) by (simp add: x w1_def split: prod.splits)
  have o1: "snd (writer_iter cfg c e f w) = \<lparr>sent = [], published = [event_of c e f]\<rparr>"
    by (simp add: step)
  show ?case unfolding wr using ih o1 by (simp add: x)
qed

lemma burst_fresh:
  assumes fr: "fresh c (st w)" and run: "running w"
    and len: "length rest \<le> 4"
    and ok: "\<And>e f. (e, f) \<in> set ((e1, f1) # rest) \<Longrightarrow> valid c e f \<and> no_raise e \<and> now e \<le> now e1 + 10000"
  shows "snd (writer cfg c ((e1, f1) # rest) w) =
           map (\<lambda>(e, f). \<lparr>sent = [], published = [event_of c e f]\<rparr>) ((e1, f1) # rest)
       \<and> running (fst (writer cfg c ((e1, f1) # rest) w))
       \<and> kv (st (fst (writer cfg c ((e1, f1) # rest) w))) (strikes_key c) = None
       \<and> kv (st (fst (writer cfg c ((e1, f1) # rest) w))) (challenge_key c) = None
       \<and> kv (st (fst (writer cfg c ((e1, f1) # rest) w))) (block_key c) = None
       \<and> kv (st (fst (writer cfg c ((e1, f1) # rest) w))) (count_key c) =
           Some (int (Suc (length rest)), Some (now e1 + 10000))"
proof -
  have v: "valid c e1 f1" and nr: "no_raise e1" using ok[of e1 f1] by simp_all
  have k: "kv (st w) (strikes_key c) = None" "kv (st w) (challenge_key c) = None"
        "kv (st w) (block_key c) = None" "kv (st w) (count_key c) = None"
    using fr by (simp_all add: fresh_def)
  have b: "bumped (st w) (now e1) (count_key c) 10 = (1, Some (now e1 + 10000))"
    using k by (simp add: bumped_def lookup_def)
  have step: "writer_iter cfg c e1 f1 w =
     (w\<lparr>payload := p_payload (parse_frame e1 f1 (payload w)),
        st := (st w)\<lparr>kv := (kv (st w))(count_key c \<mapsto> bumped (st w) (now e1) (count_key c) 10),
                     hist := take 50 (event_of c e1 f1 # hist (st w))\<rparr>\<rparr>,
      \<lparr>sent = [], published = [event_of c e1 f1]\<rparr>)"
  proof (rule step_within_limit[OF v nr])
    show "redis_ttl (st w) (now e1) (block_key c) \<le> 0" using k by (simp add: redis_ttl_absent)
    show "fst (bumped (st w) (now e1) (count_key c) 10) \<le> 5" using b by simp
    show "lookup (st w) (now e1) (challenge_key c) = None" using k by (simp add: lookup_absent)
  qed
  define w1 where "w1 = fst (writer_iter cfg c e1 f1 w)"
  have w1: "running w1" "kv (st w1) (strikes_key c) = None" "kv (st w1) (challenge_key c) = None"
    "kv (st w1) (block_key c) = None" "kv (st w1) (count_key c) = Some (int 1, Some (now e1 + 10000))"
    using run k b by (simp_all add: w1_def step)
  have rest: "snd (writer cfg c rest w1) = map (\<lambda>(e, f). \<lparr>sent = [], published = [event_of c e f]\<rparr>) rest
       \<and> running (fst (writer cfg c rest w1))
       \<and> kv (st (fst (writer cfg c rest w1))) (strikes_key c) = None
       \<and> kv (st (fst (writer cfg c rest w1))) (challenge_key c) = None
       \<and> kv (st (fst (writer cfg c rest w1))) (block_key c) = None
       \<and> kv (st (fst (writer cfg c rest w1))) (count_key c) = Some (int (1 + length rest), Some (now e1 + 10000))"
  proof (rule burst_from[OF w1])
    show "(1::nat) \<le> 1" by simp
    show "1 + length rest \<le> 5" using len by simp
    fix e' f' assume "(e', f') \<in> set rest"
    then show "valid c e' f' \<and> no_raise e' \<and> now e' \<le> now e1 + 10000" using ok[of e' f'] by simp
  qed
  have wr: "writer cfg c ((e1, f1) # rest) w =
       (fst (writer cfg c rest w1), snd (writer_iter cfg c e1 f1 w) # snd (writer cfg c rest w1))"
    using run by (simp add: w1_def split: prod.splits)
  have o1: "snd (writer_iter cfg c e1 f1 w) = \<lparr>sent = [], published = [event_of c e1 f1]\<rparr>"
    by (simp add: step)
  show ?thesis unfolding wr using rest o1 by simp
qed

lemma challenge_gate_dict:
  "\<not> raises e CDelete \<Longrightarrow> rq \<noteq> 0 \<Longrightarrow>
   challenge_gate cfg c e (Some (Dict d)) cid rq s =
     (if token_passes cfg c e d then Passed (redis_delete s (challenge_key c)) ()
      else Rejected s (challenge_reply cid))"
  by (simp add: challenge_gate_def token_passes_def Let_def)

lemma p_payload_dict: "loads f = Some (Dict d) \<Longrightarrow> p_payload (parse_frame e f pv) = Some (Dict d)"
  by (simp add: parse_frame_def fallback_def split: option.splits)

lemma first_violation_step:
  assumes v: "valid c e f" and nr: "no_raise e" and d: "loads f = Some (Dict d)"
    and sk: "kv (st w) (strikes_key c) = None" and bk: "kv (st w) (block_key c) = None"
    and cnt: "kv (st w) (count_key c) = Some (5, Some E)" and t: "now e \<le> E"
  shows "sent (snd (writer_iter cfg c e f w)) =
           (if token_passes cfg c e d then [] else [challenge_reply (cid_of e f)])
       \<and> published (snd (writer_iter cfg c e f w)) =
           (if token_passes cfg c e d then [event_of c e f] else [])
       \<and> kv (st (fst (writer_iter cfg c e f w))) (count_key c) = Some (6, Some E)
       \<and> kv (st (fst (writer_iter cfg c e f w))) (strikes_key c) = Some (1, Some (now e + 120000))
       \<and> kv (st (fst (writer_iter cfg c e f w))) (challenge_key c) =
           (if token_passes cfg c e d then None else Some (1, Some (now e + 120000)))
       \<and> kv (st (fst (writer_iter cfg c e f w))) (block_key c) = None
       \<and> running (fst (writer_iter cfg c e f w)) = running w"
proof -
  have nd: "\<not> raises e CDelete" using nr by (simp add: no_raise_iff)
  have b1: "bumped (st w) (now e) (count_key c) 10 = (6, Some E)"
    using cnt t by (simp add: bumped_def lookup_def)
  have b2: "bumped (st w) (now e) (strikes_key c) 120 = (1, Some (now e + 120000))"
    using sk by (simp add: bumped_def lookup_def)
  have pv: "p_payload (parse_frame e f (payload w)) = Some (Dict d)" by (rule p_payload_dict[OF d])
  show ?thesis
    using bk
    by (simp add: writer_iter_valid[OF v] rate_limit_ok[OF nr] redis_ttl_absent b1 b2 pv Let_def
        challenge_gate_dict[OF nd] publish_ok[OF nr] redis_delete_def)
qed

lemma writer_snoc_running:
  "running (fst (writer cfg c xs w)) \<Longrightarrow>
   writer cfg c (xs @ [(e, f)]) w =
     (fst (writer_iter cfg c e f (fst (writer cfg c xs w))),
      snd (writer cfg c xs w) @ [snd (writer_iter cfg c e f (fst (writer cfg c xs w)))])"
  by (auto simp: writer_snoc Let_def split: prod.splits)

lemma hi_is_dict: "loads hi = Some (Dict [''text'' \<mapsto> JStr ''hi''])"
  by (simp add: hi_def)

lemma fst_bumped: "fst (bumped s t k n) = fst (redis_incr s t k)"
  by (simp add: bumped_def redis_incr_def split: option.splits prod.splits)

lemma kv_publish:
  "no_raise e \<Longrightarrow> kv (st (fst (publish c e (parse_frame e f pv) w))) = kv (st w)"
  by (simp add: publish_ok)


lemma kv_writer_iter_valid:
  assumes v: "valid c e f" and nr: "no_raise e"
  shows "kv (st (fst (writer_iter cfg c e f w))) =
         kv (store_of (rate_limit cfg c e (p_payload (parse_frame e f (payload w))) (cid_of e f) (st w)))"
  by (simp add: writer_iter_valid[OF v] Let_def kv_publish[OF nr] publish_ok[OF nr] split: outcome.splits)




lemma rate_limit_blocked:
  "\<not> raises e CTtl \<Longrightarrow> redis_ttl s (now e) (block_key c) > 0 \<Longrightarrow>
   rate_limit cfg c e pv cid s = Rejected s (blocked_ttl_reply (redis_ttl s (now e) (block_key c)) cid)"
  by (simp add: rate_limit_def block_gate_def bind_def Let_def)

lemma blocked_step:
  assumes "valid c e f" "\<not> raises e CTtl" "redis_ttl (st w) (now e) (block_key c) > 0"
  shows "writer_iter cfg c e f w =
      (w\<lparr>payload := p_payload (parse_frame e f (payload w))\<rparr>,
       \<lparr>sent = [blocked_ttl_reply (redis_ttl (st w) (now e) (block_key c)) (cid_of e f)],
        published = []\<rparr>)"
  using assms(2,3) by (simp add: writer_iter_valid[OF assms(1)] rate_limit_blocked Let_def)

lemma blocked_run:
  assumes "running w"
    and "\<And>e f. (e, f) \<in> set inp \<Longrightarrow>
           valid c e f \<and> \<not> raises e CTtl \<and> redis_ttl (st w) (now e) (block_key c) > 0"
  shows "snd (writer cfg c inp w) =
           map (\<lambda>(e, f). \<lparr>sent = [blocked_ttl_reply (redis_ttl (st w) (now e) (block_key c)) (cid_of e f)],
                         published = []\<rparr>) inp
       \<and> st (fst (writer cfg c inp w)) = st w \<and> running (fst (writer cfg c inp w))"
  using assms
proof (induction inp arbitrary: w)
  case Nil
  then show ?case by simp
next
  case (Cons x rest)
  obtain e f where x: "x = (e, f)" by (cases x)
  have h: "valid c e f" "\<not> raises e CTtl" "redis_ttl (st w) (now e) (block_key c) > 0"
    using Cons.prems(2)[of e f] by (simp_all add: x)
  note step = blocked_step[OF h, of cfg]
  define w1 where "w1 = w\<lparr>payload := p_payload (parse_frame e f (payload w))\<rparr>"
  have w1: "running w1" "st w1 = st w" using Cons.prems(1) by (simp_all add: w1_def)
  have ih: "snd (writer cfg c rest w1) =
           map (\<lambda>(e, f). \<lparr>sent = [blocked_ttl_reply (redis_ttl (st w1) (now e) (block_key c)) (cid_of e f)],
                         published = []\<rparr>) rest
       \<and> st (fst (writer cfg c rest w1)) = st w1 \<and> running (fst (writer cfg c rest w1))"
  proof (rule Cons.IH[OF w1(1)])
    fix e' f' assume "(e', f') \<in> set rest"
    then show "valid c e' f' \<and> \<not> raises e' CTtl \<and> redis_ttl (st w1) (now e') (block_key c) > 0"
      using Cons.prems(2)[of e' f'] by (simp add: w1(2))
  qed
  have wr: "writer cfg c (x # rest) w =
       (fst (writer cfg c rest w1),
        \<lparr>sent = [blocked_ttl_reply (redis_ttl (st w) (now e) (block_key c)) (cid_of e f)],
         published = []\<rparr> # snd (writer cfg c rest w1))"
    using Cons.prems(1) by (simp add: x step w1_def split: prod.splits)
  show ?case unfolding wr using ih by (simp add: x w1(2))
qed

lemma third_strike_step:
  assumes v: "valid c e f" and nr: "no_raise e"
    and b: "redis_ttl (st w) (now e) (block_key c) \<le> 0"
    and cnt: "fst (redis_incr (st w) (now e) (count_key c)) > 5"
    and sk: "fst (redis_incr (st w) (now e) (strikes_key c)) \<ge> 3"
  shows "writer_iter cfg c e f w =
      (w\<lparr>payload := p_payload (parse_frame e f (payload w)),
         st := (st w)\<lparr>kv := (kv (st w))
                  (count_key c \<mapsto> bumped (st w) (now e) (count_key c) 10,
                   strikes_key c \<mapsto> bumped (st w) (now e) (strikes_key c) 120,
                   block_key c \<mapsto> (1, Some (now e + 60000)))\<rparr>\<rparr>,
       \<lparr>sent = [blocked_reply (cid_of e f)], published = []\<rparr>)"
  using b cnt sk
  by (simp add: writer_iter_valid[OF v] rate_limit_ok[OF nr] Let_def fst_bumped)

lemma redis_ttl_set:
  "kv s k = Some (v, Some E) \<Longrightarrow> redis_ttl s t k = (if t \<le> E then (E - t + 500) div 1000 else - 2)"
  by (simp add: redis_ttl_def lookup_def)

lemma redis_ttl_later:
  "redis_ttl s t k \<le> 0 \<Longrightarrow> t \<le> t' \<Longrightarrow> kv s' k = kv s k \<Longrightarrow> redis_ttl s' t' k \<le> 0"
  by (auto simp: redis_ttl_def lookup_def split: option.splits prod.splits if_splits)

lemma verified_step:
  assumes v: "valid c e f" and nr: "no_raise e" and d: "loads f = Some (Dict d)"
    and tok: "token_passes cfg c e d"
    and pend: "lookup (st w) (now e) (challenge_key c) \<noteq> None"
    and nb: "redis_ttl (st w) (now e) (block_key c) \<le> 0"
    and n3: "\<not> (fst (redis_incr (st w) (now e) (count_key c)) > 5
               \<and> fst (redis_incr (st w) (now e) (strikes_key c)) \<ge> 3)"
  shows "snd (writer_iter cfg c e f w) = \<lparr>sent = [], published = [event_of c e f]\<rparr>
       \<and> kv (st (fst (writer_iter cfg c e f w))) (challenge_key c) = None
       \<and> kv (st (fst (writer_iter cfg c e f w))) (block_key c) = kv (st w) (block_key c)
       \<and> running (fst (writer_iter cfg c e f w)) = running w"
proof -
  have nd: "\<not> raises e CDelete" using nr by (simp add: no_raise_iff)
  have pv: "p_payload (parse_frame e f (payload w)) = Some (Dict d)" by (rule p_payload_dict[OF d])
  have ex: "redis_exists (st w) (now e) (challenge_key c) \<noteq> 0"
    using pend by (simp add: redis_exists_def split: option.splits)
  show ?thesis
    using nb n3 tok ex
    by (simp add: writer_iter_valid[OF v] rate_limit_ok[OF nr] pv Let_def fst_bumped
        challenge_gate_dict[OF nd] publish_ok[OF nr] redis_delete_def)
qed

lemma ev_text_event_of: "ev_text (event_of c e f) = text_of e f"
  by (simp add: event_of_def make_event_def text_of_def)

lemma hi_verified_is_dict:
  "loads hi_verified = Some (Dict [''text'' \<mapsto> JStr ''hi'', ''cf'' \<mapsto> JStr ''good''])"
  by (simp add: hi_verified_def)

lemma token_good:
  "token_passes cfg0 alice (env_at t) [''text'' \<mapsto> JStr ''hi'', ''cf'' \<mapsto> JStr ''good'']"
  by (simp add: token_passes_def dget_def verify_turnstile_def cfg0_def env_at_def alice_def)

lemma now_env_at: "now (env_at t) = 1000 * t"
  by (simp add: env_at_def)

section \<open>Frames that differ in the user fields\<close>

lemma pv_rel_refl: "pv_rel pv pv"
proof (cases pv)
  case None then show ?thesis by simp
next
  case (Some v) then show ?thesis by (cases v) (simp_all add: same_but_user_def)
qed

lemma same_but_user_dget:
  "same_but_user d d' \<Longrightarrow> k \<noteq> ''user'' \<Longrightarrow> k \<noteq> ''username'' \<Longrightarrow> dget d' k = dget d k"
  by (simp add: same_but_user_def dget_def)

lemma challenge_gate_rel:
  assumes "pv_rel pv pv'"
  shows "challenge_gate cfg c e pv' cid rq s = challenge_gate cfg c e pv cid rq s"
proof (cases pv)
  case None
  with assms show ?thesis by simp
next
  case (Some v)
  show ?thesis
  proof (cases v)
    case NonDict
    with Some assms show ?thesis by simp
  next
    case (Dict d)
    show ?thesis
    proof (cases pv')
      case None
      with Some Dict assms show ?thesis by simp
    next
      case (Some v')
      note s' = this
      show ?thesis
      proof (cases v')
        case NonDict
        with \<open>pv = Some v\<close> Dict s' assms show ?thesis by simp
      next
        case (Dict d')
        with \<open>pv = Some v\<close> \<open>v = Dict d\<close> s' assms have sb: "same_but_user d d'" by simp
        have cf: "dget d' ''cf'' = dget d ''cf''" by (rule same_but_user_dget[OF sb]) simp_all
        show ?thesis
          by (simp add: challenge_gate_def \<open>pv = Some v\<close> \<open>v = Dict d\<close> s' Dict cf)
      qed
    qed
  qed
qed

lemma rate_limit_rel:
  assumes "pv_rel pv pv'"
  shows "rate_limit cfg c e pv' cid s = rate_limit cfg c e pv cid s"
  by (simp add: rate_limit_def challenge_gate_rel[OF assms])

lemma user_variant_cases:
  assumes uv: "user_variant e f f'"
  shows "f' = f \<or> (\<exists>d d'. loads f = Some (Dict d) \<and> loads f' = Some (Dict d') \<and> same_but_user d d'
            \<and> py_int e (por (dget d ''ts'') (JInt 0)) \<noteq> None)"
proof (cases "f' = f")
  case True
  then show ?thesis by simp
next
  case False
  with uv have h: "(case loads f of
         Some (Dict d) \<Rightarrow>
           (case loads f' of
              Some (Dict d') \<Rightarrow> same_but_user d d' \<and> py_int e (por (dget d ''ts'') (JInt 0)) \<noteq> None
            | _ \<Rightarrow> False)
       | _ \<Rightarrow> False)"
    by (simp add: user_variant_def)
  show ?thesis
  proof (cases "loads f")
    case None
    with h show ?thesis by simp
  next
    case (Some v)
    note sv = this
    show ?thesis
    proof (cases v)
      case NonDict
      with h sv show ?thesis by simp
    next
      case (Dict d)
      note vd = this
      show ?thesis
      proof (cases "loads f'")
        case None
        with h sv vd show ?thesis by simp
      next
        case (Some v')
        note sv' = this
        show ?thesis
        proof (cases v')
          case NonDict
          with h sv vd sv' show ?thesis by simp
        next
          case (Dict d')
          with h sv vd sv' show ?thesis by simp
        qed
      qed
    qed
  qed
qed

lemma variant_parse:
  assumes uv: "user_variant e f f'" and pr: "pv_rel pv pv'"
  shows "text_of e f' = text_of e f" "cid_of e f' = cid_of e f" "ts_of e f' = ts_of e f"
    "pv_rel (p_payload (parse_frame e f pv)) (p_payload (parse_frame e f' pv'))"
proof -
  consider (same) "f' = f"
    | (dicts) d d' where "loads f = Some (Dict d)" "loads f' = Some (Dict d')" "same_but_user d d'"
        "py_int e (por (dget d ''ts'') (JInt 0)) \<noteq> None"
    using user_variant_cases[OF uv] by blast
  then have "text_of e f' = text_of e f \<and> cid_of e f' = cid_of e f \<and> ts_of e f' = ts_of e f
    \<and> pv_rel (p_payload (parse_frame e f pv)) (p_payload (parse_frame e f' pv'))"
  proof cases
    case same
    have "pv_rel (p_payload (parse_frame e f pv)) (p_payload (parse_frame e f pv'))"
      using pr by (auto simp: parse_frame_def fallback_def pv_rel_refl same_but_user_def
          split: option.splits pyval.splits)
    with same show ?thesis by simp
  next
    case dicts
    have t: "dget d' ''ts'' = dget d ''ts''" by (rule same_but_user_dget[OF dicts(3)]) simp_all
    have x: "dget d' ''text'' = dget d ''text''" by (rule same_but_user_dget[OF dicts(3)]) simp_all
    have i: "dget d' ''id'' = dget d ''id''" by (rule same_but_user_dget[OF dicts(3)]) simp_all
    from dicts(4) obtain n where n: "py_int e (por (dget d ''ts'') (JInt 0)) = Some n" by auto
    show ?thesis
      by (simp add: text_of_def cid_of_def ts_of_def parse_frame_def dicts(1,2,3) t x i n)
  qed
  then show "text_of e f' = text_of e f" "cid_of e f' = cid_of e f" "ts_of e f' = ts_of e f"
    "pv_rel (p_payload (parse_frame e f pv)) (p_payload (parse_frame e f' pv'))"
    by simp_all
qed

lemma event_of_variant:
  assumes "user_variant e f f'"
  shows "event_of c e f' = event_of c e f"
proof -
  have "make_event c e (parse_frame e f' None) = make_event c e (parse_frame e f None)"
    unfolding make_event_def parse_frame_indep variant_parse(1-3)[OF assms pv_rel_refl] ..
  then show ?thesis by (simp add: event_of_def)
qed

lemma publish_variant:
  assumes uv: "user_variant e f f'" and s: "st w' = st w" and r: "running w' = running w"
  shows "snd (publish c e (parse_frame e f' pv') w') = snd (publish c e (parse_frame e f pv) w)"
    "st (fst (publish c e (parse_frame e f' pv') w')) = st (fst (publish c e (parse_frame e f pv) w))"
    "running (fst (publish c e (parse_frame e f' pv') w')) = running (fst (publish c e (parse_frame e f pv) w))"
  by (simp_all add: publish_def make_event_indep event_of_variant[OF uv] s r Let_def)

lemma payload_publish: "payload (fst (publish c e p w)) = payload w"
  by (simp add: publish_def Let_def)

lemma variant_step:
  assumes uv: "user_variant e f f'" and pr: "pv_rel (payload w) (payload w')"
    and s: "st w' = st w" and r: "running w' = running w"
  shows "snd (writer_iter cfg c e f' w') = snd (writer_iter cfg c e f w)
       \<and> st (fst (writer_iter cfg c e f' w')) = st (fst (writer_iter cfg c e f w))
       \<and> running (fst (writer_iter cfg c e f' w')) = running (fst (writer_iter cfg c e f w))
       \<and> pv_rel (payload (fst (writer_iter cfg c e f w))) (payload (fst (writer_iter cfg c e f' w')))"
proof -
  note vp = variant_parse[OF uv pr]
  let ?p = "parse_frame e f (payload w)" and ?p' = "parse_frame e f' (payload w')"
  have rl: "rate_limit cfg c e (p_payload ?p') (cid_of e f) (st w)
          = rate_limit cfg c e (p_payload ?p) (cid_of e f) (st w)"
    by (rule rate_limit_rel[OF vp(4)])
  show ?thesis
  proof (cases "text_of e f = [] \<or> \<not> authenticated c \<or> length (text_of e f) > 2000")
    case True
    then show ?thesis
      using vp(4) by (auto simp: writer_iter_def parse_frame_indep vp(1-3) s r Let_def)
  next
    case False
    show ?thesis
    proof (cases "rate_limit cfg c e (p_payload ?p) (cid_of e f) (st w)")
      case (Rejected s1 rp)
      then show ?thesis
        using False vp(4) by (simp add: writer_iter_def parse_frame_indep vp(1-3) s r rl Let_def)
    next
      case (Raised s1)
      then show ?thesis
        using False vp(4)
        by (simp add: writer_iter_def parse_frame_indep vp(1-3) s r rl Let_def
            publish_variant[OF uv] payload_publish)
    next
      case (Passed s1 u)
      then show ?thesis
        using False vp(4)
        by (simp add: writer_iter_def parse_frame_indep vp(1-3) s r rl Let_def
            publish_variant[OF uv] payload_publish)
    qed
  qed
qed

lemma variant_run:
  assumes "list_all2 (\<lambda>(e, f) (e', f'). e' = e \<and> user_variant e f f') inp inp'"
    and "pv_rel (payload w) (payload w')" and "st w' = st w" and "running w' = running w"
  shows "snd (writer cfg c inp' w') = snd (writer cfg c inp w)
       \<and> st (fst (writer cfg c inp' w')) = st (fst (writer cfg c inp w))
       \<and> running (fst (writer cfg c inp' w')) = running (fst (writer cfg c inp w))"
  using assms
proof (induction arbitrary: w w' rule: list_all2_induct)
  case Nil
  then show ?case by simp
next
  case (Cons x xs y ys)
  obtain e f where x: "x = (e, f)" by (cases x)
  obtain e' f' where y: "y = (e', f')" by (cases y)
  from Cons.hyps(1) x y have e: "e' = e" and uv: "user_variant e f f'" by simp_all
  note stp = variant_step[OF uv Cons.prems(1,2,3), of cfg c]
  show ?case
  proof (cases "running w")
    case False
    with Cons.prems show ?thesis by (simp add: x y)
  next
    case True
    with Cons.prems have r': "running w'" by simp
    have ih: "snd (writer cfg c ys (fst (writer_iter cfg c e f' w'))) = snd (writer cfg c xs (fst (writer_iter cfg c e f w)))
       \<and> st (fst (writer cfg c ys (fst (writer_iter cfg c e f' w')))) = st (fst (writer cfg c xs (fst (writer_iter cfg c e f w))))
       \<and> running (fst (writer cfg c ys (fst (writer_iter cfg c e f' w')))) = running (fst (writer cfg c xs (fst (writer_iter cfg c e f w))))"
      using stp by (intro Cons.IH) simp_all
    show ?thesis
      using True r' ih stp by (simp add: x y e split_beta)
  qed
qed

lemma published_user_step:
  "list_all (\<lambda>ev. ev_user ev = display_name c) (published (snd (writer_iter cfg c e f w)))"
  by (simp add: writer_iter_def publish_def make_event_def Let_def split: outcome.splits)

lemma published_user_run:
  "list_all (\<lambda>ot. list_all (\<lambda>ev. ev_user ev = display_name c) (published ot)) (snd (writer cfg c inp w))"
proof (induction inp arbitrary: w)
  case Nil
  then show ?case by simp
next
  case (Cons x xs)
  obtain e f where x: "x = (e, f)" by (cases x)
  show ?case
    using Cons.IH[of "fst (writer_iter cfg c e f w)"] published_user_step[of c cfg e f w]
    by (simp add: x split_beta)
qed

section \<open>Strikes\<close>

lemma writer_append:
  "writer cfg c (xs @ ys) w =
     (fst (writer cfg c ys (fst (writer cfg c xs w))),
      snd (writer cfg c xs w) @ snd (writer cfg c ys (fst (writer cfg c xs w))))"
proof (induction xs arbitrary: w)
  case Nil
  then show ?case by simp
next
  case (Cons x xs)
  obtain e f where x: "x = (e, f)" by (cases x)
  show ?case
  proof (cases "running w")
    case False
    then show ?thesis by (simp add: x writer_not_running)
  next
    case True
    then show ?thesis by (simp add: x Cons.IH split_beta)
  qed
qed

lemma running_writer_iter:
  "\<not> raises e CPublish \<Longrightarrow> running (fst (writer_iter cfg c e f w)) = running w"
  by (simp add: writer_iter_def publish_def Let_def split: outcome.splits)

lemma challenge_gate_other:
  "k \<noteq> challenge_key c \<Longrightarrow> kv (store_of (challenge_gate cfg c e pv cid rq s)) k = kv s k"
  by (simp add: challenge_gate_def Let_def redis_delete_def split: option.splits pyval.splits)

lemma strikes_after_iter:
  assumes nr: "no_raise e"
  shows "kv (st (fst (writer_iter cfg c e f w))) (strikes_key c) =
     (if violation c e f w then Some (bumped (st w) (now e) (strikes_key c) 120)
      else kv (st w) (strikes_key c))"
proof (cases "valid c e f")
  case False
  then have "text_of e f = [] \<or> \<not> authenticated c \<or> length (text_of e f) > 2000"
    by (auto simp: valid_def)
  from writer_iter_rejected[OF this] False show ?thesis by (simp add: violation_def)
next
  case True
  show ?thesis
    using True
    by (simp add: kv_writer_iter_valid[OF True nr] rate_limit_ok[OF nr] Let_def fst_bumped
        challenge_gate_other violation_def)
qed

lemma block_after_iter:
  assumes nr: "no_raise e"
  shows "kv (st (fst (writer_iter cfg c e f w))) (block_key c) =
     (if violation c e f w \<and> fst (redis_incr (st w) (now e) (strikes_key c)) \<ge> 3
      then Some (1, Some (now e + 60000)) else kv (st w) (block_key c))"
proof (cases "valid c e f")
  case False
  then have "text_of e f = [] \<or> \<not> authenticated c \<or> length (text_of e f) > 2000"
    by (auto simp: valid_def)
  from writer_iter_rejected[OF this] False show ?thesis by (simp add: violation_def)
next
  case True
  show ?thesis
    using True
    by (simp add: kv_writer_iter_valid[OF True nr] rate_limit_ok[OF nr] Let_def fst_bumped
        challenge_gate_other violation_def)
qed

lemma quiet_run:
  assumes "\<And>e f. (e, f) \<in> set q \<Longrightarrow> no_raise e" and "quiet cfg c q w"
  shows "kv (st (fst (writer cfg c q w))) (strikes_key c) = kv (st w) (strikes_key c)
       \<and> kv (st (fst (writer cfg c q w))) (block_key c) = kv (st w) (block_key c)
       \<and> running (fst (writer cfg c q w)) = running w"
  using assms
proof (induction q arbitrary: w)
  case Nil
  then show ?case by simp
next
  case (Cons x q)
  obtain e f where x: "x = (e, f)" by (cases x)
  have nr: "no_raise e" using Cons.prems(1)[of e f] by (simp add: x)
  have nv: "\<not> violation c e f w" and q': "quiet cfg c q (fst (writer_iter cfg c e f w))"
    using Cons.prems(2) by (simp_all add: x)
  have np: "\<not> raises e CPublish" using nr by (simp add: no_raise_iff)
  have ih: "kv (st (fst (writer cfg c q (fst (writer_iter cfg c e f w))))) (strikes_key c)
              = kv (st (fst (writer_iter cfg c e f w))) (strikes_key c)
       \<and> kv (st (fst (writer cfg c q (fst (writer_iter cfg c e f w))))) (block_key c)
              = kv (st (fst (writer_iter cfg c e f w))) (block_key c)
       \<and> running (fst (writer cfg c q (fst (writer_iter cfg c e f w))))
              = running (fst (writer_iter cfg c e f w))"
  proof (rule Cons.IH[OF _ q'])
    fix e' f' assume "(e', f') \<in> set q"
    then show "no_raise e'" using Cons.prems(1)[of e' f'] by simp
  qed
  show ?case
  proof (cases "running w")
    case False
    then show ?thesis by (simp add: x)
  next
    case True
    then show ?thesis
      using ih nv
      by (simp add: x split_beta strikes_after_iter[OF nr] block_after_iter[OF nr]
          running_writer_iter[OF np])
  qed
qed

lemma redis_ttl_mono:
  "kv s k = Some (v, Some E) \<Longrightarrow> t \<le> t' \<Longrightarrow> t' \<le> E \<Longrightarrow> redis_ttl s t' k \<le> redis_ttl s t k"
  by (simp add: redis_ttl_set zdiv_mono1)

lemma redis_ttl_bound:
  assumes "kv s k = Some (v, Some (t0 + 60000))" and "t0 \<le> t"
  shows "redis_ttl s t k \<le> 60"
proof (cases "t \<le> t0 + 60000")
  case True
  have "(t0 + 60000 - t + 500) div 1000 \<le> 60500 div (1000::int)"
    using assms(2) by (intro zdiv_mono1) simp_all
  then show ?thesis using True by (simp add: redis_ttl_set[OF assms(1)])
next
  case False
  then show ?thesis by (simp add: redis_ttl_set[OF assms(1)])
qed

lemma redis_ttl_positive:
  "kv s k = Some (v, Some E) \<Longrightarrow> 0 < redis_ttl s t k \<longleftrightarrow> t + 500 \<le> E"
  by (auto simp: redis_ttl_set)

section \<open>The sixth message of a burst\<close>

text \<open>
  Claim C1, as amended. A sender without rate-limit state sends six valid frames, all
  within the burst window opened by the first one (ten seconds, that is 10000
  milliseconds, its end included), while no call of the backing store raises, and the
  sixth frame decodes to a JSON object. Then the first five
  are published, and the sixth is answered with the error reply \<^verbatim>\<open>challenge_required\<close>
  and not published, with the challenge flag left pending for 120 seconds, unless it
  carries a verification token that passes human verification: then it is published with
  no error reply and the challenge flag is cleared. It is never answered with
  \<^verbatim>\<open>blocked\<close>: the block key stays absent.
\<close>

theorem sixth_message_challenged_unless_verified:
  assumes fr: "fresh c (st w)" and run: "running w" and len: "length rest = 4"
    and ok: "\<And>e f. (e, f) \<in> set ((e1, f1) # rest @ [(e6, f6)]) \<Longrightarrow>
               valid c e f \<and> no_raise e \<and> now e \<le> now e1 + 10000"
    and d: "loads f6 = Some (Dict d)"
  shows "take 5 (snd (writer cfg c ((e1, f1) # rest @ [(e6, f6)]) w)) =
           map (\<lambda>(e, f). \<lparr>sent = [], published = [event_of c e f]\<rparr>) ((e1, f1) # rest)
       \<and> snd (writer cfg c ((e1, f1) # rest @ [(e6, f6)]) w) ! 5 =
           (if token_passes cfg c e6 d then \<lparr>sent = [], published = [event_of c e6 f6]\<rparr>
            else \<lparr>sent = [challenge_reply (cid_of e6 f6)], published = []\<rparr>)
       \<and> rp_code (challenge_reply (cid_of e6 f6)) = ''challenge_required''
       \<and> kv (st (fst (writer cfg c ((e1, f1) # rest @ [(e6, f6)]) w))) (challenge_key c) =
           (if token_passes cfg c e6 d then None else Some (1, Some (now e6 + 120000)))
       \<and> kv (st (fst (writer cfg c ((e1, f1) # rest @ [(e6, f6)]) w))) (block_key c) = None"
proof -
  define w5 where "w5 = fst (writer cfg c ((e1, f1) # rest) w)"
  define o5 where "o5 = snd (writer cfg c ((e1, f1) # rest) w)"
  have ok5: "valid c e f \<and> no_raise e \<and> now e \<le> now e1 + 10000" if "(e, f) \<in> set ((e1, f1) # rest)" for e f
    using ok[of e f] that by auto
  have len4: "length rest \<le> 4" using len by simp
  note bf = burst_fresh[where cfg = cfg, OF fr run len4 ok5]
  have o5: "o5 = map (\<lambda>(e, f). \<lparr>sent = [], published = [event_of c e f]\<rparr>) ((e1, f1) # rest)"
    and r5: "running w5" and sk: "kv (st w5) (strikes_key c) = None"
    and bk: "kv (st w5) (block_key c) = None"
    and cnt: "kv (st w5) (count_key c) = Some (5, Some (now e1 + 10000))"
    using bf len by (simp_all add: w5_def o5_def)
  have l5: "length o5 = 5" using len by (simp add: o5)
  have v6: "valid c e6 f6" and nr6: "no_raise e6" and t6: "now e6 \<le> now e1 + 10000"
    using ok[of e6 f6] by simp_all
  note st = first_violation_step[where cfg = cfg, OF v6 nr6 d sk bk cnt t6]
  have wr: "writer cfg c ((e1, f1) # rest @ [(e6, f6)]) w =
       (fst (writer_iter cfg c e6 f6 w5), o5 @ [snd (writer_iter cfg c e6 f6 w5)])"
  proof -
    have "running (fst (writer cfg c ((e1, f1) # rest) w))" using r5 by (simp only: w5_def)
    from writer_snoc_running[OF this, of e6 f6] show ?thesis
      by (simp only: append_Cons w5_def o5_def)
  qed
  have o6: "snd (writer_iter cfg c e6 f6 w5) =
           (if token_passes cfg c e6 d then \<lparr>sent = [], published = [event_of c e6 f6]\<rparr>
            else \<lparr>sent = [challenge_reply (cid_of e6 f6)], published = []\<rparr>)"
    using st by (cases "snd (writer_iter cfg c e6 f6 w5)") auto
  show ?thesis
    unfolding wr using st l5 o5 o6 by (simp add: nth_append challenge_reply_def)
qed

theorem sixth_message_witness:
  "fresh alice (st w0) \<and> running w0 \<and> length (burst 4 0 hi) = 4
   \<and> \<not> token_passes cfg0 alice (env_at 3) [''text'' \<mapsto> JStr ''hi'']
   \<and> map rp_code (sent (snd (writer cfg0 alice ((env_at 0, hi) # burst 4 0 hi @ [(env_at 3, hi)]) w0) ! 5))
       = [''challenge_required'']
   \<and> published (snd (writer cfg0 alice ((env_at 0, hi) # burst 4 0 hi @ [(env_at 3, hi)]) w0) ! 5) = []"
proof -
  have r: "running w0" by (simp add: w0_def)
  have l: "length (burst 4 0 hi) = 4" by (simp add: burst_def)
  have ok: "valid alice e f \<and> no_raise e \<and> now e \<le> now (env_at 0) + 10000"
    if "(e, f) \<in> set ((env_at 0, hi) # burst 4 0 hi @ [(env_at 3, hi)])" for e f
    using that by (auto simp: burst_def valid_hi no_raise_env_at) (simp_all add: env_at_def)
  have np: "\<not> token_passes cfg0 alice (env_at 3) [''text'' \<mapsto> JStr ''hi'']"
    by (simp add: token_passes_def dget_def)
  from sixth_message_challenged_unless_verified[where cfg = cfg0, OF fresh_w0 r l ok hi_is_dict] np r l
  show ?thesis by (simp add: fresh_w0)
qed

text \<open>
  Claim C1 as stated fails: a sixth message that carries a passing verification token is
  published without any error reply.
\<close>

theorem sixth_message_with_passing_token_published:
  "fresh alice (st w0)
   \<and> token_passes cfg0 alice (env_at 3) [''text'' \<mapsto> JStr ''hi'', ''cf'' \<mapsto> JStr ''good'']
   \<and> sent (snd (writer cfg0 alice (burst 5 0 hi @ [(env_at 3, hi_verified)]) w0) ! 5) = []
   \<and> map ev_text (published (snd (writer cfg0 alice (burst 5 0 hi @ [(env_at 3, hi_verified)]) w0) ! 5))
       = [''hi'']"
proof -
  have a: "token_passes cfg0 alice (env_at 3) [''text'' \<mapsto> JStr ''hi'', ''cf'' \<mapsto> JStr ''good'']"
    by (simp add: token_passes_def dget_def verify_turnstile_def cfg0_def env_at_def alice_def)
  have b: "sent (snd (writer cfg0 alice (burst 5 0 hi @ [(env_at 3, hi_verified)]) w0) ! 5) = []"
    by code_simp
  have c: "map ev_text (published (snd (writer cfg0 alice (burst 5 0 hi @ [(env_at 3, hi_verified)]) w0) ! 5))
       = [''hi'']"
    by code_simp
  from a b c show ?thesis by (simp add: fresh_w0)
qed

text \<open>
  A sixth frame that is not JSON is published as well: reading the token from the unbound
  variable \<^verbatim>\<open>payload\<close> raises inside the rate limiter, whose \<^verbatim>\<open>except\<close> clause lets
  the message through.
\<close>

lemma sixth_plain_frame_published:
  "sent (snd (writer cfg0 alice (burst 6 0 plain) w0) ! 5) = []
   \<and> map ev_text (published (snd (writer cfg0 alice (burst 6 0 plain) w0) ! 5)) = [''hello'']"
  by code_simp

section \<open>The history log\<close>




section \<open>The block window\<close>

text \<open>
  Claim C3, as amended. Times are those of the clock of the backing store, in milliseconds.
  The first burst violation of a sender that comes when no strikes window is open opens
  one: the strikes key gets the value 1 and expires 120 seconds later, and no later strike
  extends it. Let two more burst violations of the sender come no later than 120 seconds
  after that first one, with any frames that are not burst violations in between, no call
  of the backing store raising. Then the third violation brings the strikes counter to 3,
  is answered \<^verbatim>\<open>blocked\<close> with \<^verbatim>\<open>retry_after\<close> 60 and sets the block flag with a
  time to live of 60 seconds. What \<^verbatim>\<open>TTL\<close> replies for the flag is its remaining time
  rounded to the nearest second: at most 60, never increasing, and positive until 59.5
  seconds after the block. Every valid frame of the sender handled up to then, the call
  reading the flag not raising, is answered \<^verbatim>\<open>blocked\<close> with that reply as
  \<^verbatim>\<open>retry_after\<close>, is not published, and leaves the whole store as the blocking frame
  left it: neither counter is incremented.
\<close>

theorem blocked_for_sixty_seconds:
  assumes run: "running w"
    and nr: "\<And>e f. (e, f) \<in> set ((e1, f1) # q1 @ (e2, f2) # q2 @ [(e3, f3)]) \<Longrightarrow> no_raise e"
    and s0: "lookup (st w) (now e1) (strikes_key c) = None"
    and v1: "violation c e1 f1 w"
    and qa: "quiet cfg c q1 (fst (writer_iter cfg c e1 f1 w))"
    and v2: "violation c e2 f2 (fst (writer cfg c ((e1, f1) # q1) w))"
    and t2: "now e2 \<le> now e1 + 120000"
    and qb: "quiet cfg c q2 (fst (writer cfg c ((e1, f1) # q1 @ [(e2, f2)]) w))"
    and v3: "violation c e3 f3 (fst (writer cfg c ((e1, f1) # q1 @ (e2, f2) # q2) w))"
    and t3: "now e3 \<le> now e1 + 120000"
    and fol: "\<And>e f. (e, f) \<in> set inp \<Longrightarrow>
                valid c e f \<and> \<not> raises e CTtl \<and> now e + 500 \<le> now e3 + 60000"
  shows "snd (writer cfg c ((e3, f3) # inp) (fst (writer cfg c ((e1, f1) # q1 @ (e2, f2) # q2) w))) =
           \<lparr>sent = [blocked_reply (cid_of e3 f3)], published = []\<rparr> #
           map (\<lambda>(e, f). \<lparr>sent = [blocked_ttl_reply ((now e3 + 60000 - now e + 500) div 1000) (cid_of e f)],
                         published = []\<rparr>) inp
       \<and> kv (st (fst (writer cfg c ((e1, f1) # q1 @ (e2, f2) # q2 @ [(e3, f3)]) w))) (strikes_key c)
           = Some (3, Some (now e1 + 120000))
       \<and> kv (st (fst (writer cfg c ((e1, f1) # q1 @ (e2, f2) # q2 @ [(e3, f3)]) w))) (block_key c)
           = Some (1, Some (now e3 + 60000))
       \<and> st (fst (writer cfg c ((e1, f1) # q1 @ (e2, f2) # q2 @ (e3, f3) # inp) w))
           = st (fst (writer cfg c ((e1, f1) # q1 @ (e2, f2) # q2 @ [(e3, f3)]) w))
       \<and> running (fst (writer cfg c ((e1, f1) # q1 @ (e2, f2) # q2 @ (e3, f3) # inp) w))
       \<and> (\<forall>t. redis_ttl (st (fst (writer cfg c ((e1, f1) # q1 @ (e2, f2) # q2 @ [(e3, f3)]) w))) t (block_key c)
              = (if t \<le> now e3 + 60000 then (now e3 + 60000 - t + 500) div 1000 else - 2))
       \<and> (\<forall>t t'. t \<le> t' \<and> t' \<le> now e3 + 60000 \<longrightarrow>
              redis_ttl (st (fst (writer cfg c ((e1, f1) # q1 @ (e2, f2) # q2 @ [(e3, f3)]) w))) t' (block_key c)
              \<le> redis_ttl (st (fst (writer cfg c ((e1, f1) # q1 @ (e2, f2) # q2 @ [(e3, f3)]) w))) t (block_key c))
       \<and> (\<forall>t. now e3 \<le> t \<longrightarrow>
              redis_ttl (st (fst (writer cfg c ((e1, f1) # q1 @ (e2, f2) # q2 @ [(e3, f3)]) w))) t (block_key c) \<le> 60)
       \<and> rp_code (blocked_reply cid) = ''blocked'' \<and> rp_retry_after (blocked_reply cid) = Some 60
       \<and> rp_code (blocked_ttl_reply x cid) = ''blocked''
       \<and> rp_retry_after (blocked_ttl_reply x cid) = Some x"
proof -
  define w1 where "w1 = fst (writer_iter cfg c e1 f1 w)"
  define w2 where "w2 = fst (writer cfg c q1 w1)"
  define w2' where "w2' = fst (writer_iter cfg c e2 f2 w2)"
  define w3 where "w3 = fst (writer cfg c q2 w2')"
  define w4 where "w4 = fst (writer_iter cfg c e3 f3 w3)"
  have nr1: "no_raise e1" and nr2: "no_raise e2" and nr3: "no_raise e3"
    using nr[of e1 f1] nr[of e2 f2] nr[of e3 f3] by simp_all
  have nrq1: "no_raise e" if "(e, f) \<in> set q1" for e f using nr[of e f] that by simp
  have nrq2: "no_raise e" if "(e, f) \<in> set q2" for e f using nr[of e f] that by simp
  have np: "\<not> raises e1 CPublish" "\<not> raises e2 CPublish" "\<not> raises e3 CPublish"
    using nr1 nr2 nr3 by (simp_all add: no_raise_iff)
  have r1: "running w1" using run by (simp add: w1_def running_writer_iter[OF np(1)])
  have p1: "fst (writer cfg c ((e1, f1) # q1) w) = w2"
    using run by (simp add: w1_def w2_def split_beta)
  have p2: "fst (writer cfg c ((e1, f1) # q1 @ [(e2, f2)]) w) = w2'"
  proof -
    have "fst (writer cfg c (((e1, f1) # q1) @ [(e2, f2)]) w) = fst (writer cfg c [(e2, f2)] w2)"
      by (simp only: writer_append p1 fst_conv)
    moreover have "running w2"
      using quiet_run[OF nrq1 qa[folded w1_def]] r1 by (simp add: w2_def)
    ultimately show ?thesis by (simp add: w2'_def split_beta)
  qed
  have r2: "running w2" using quiet_run[OF nrq1 qa[folded w1_def]] r1 by (simp add: w2_def)
  have r2': "running w2'" using r2 by (simp add: w2'_def running_writer_iter[OF np(2)])
  have q2': "quiet cfg c q2 w2'" using qb by (simp only: p2)
  have r3: "running w3" using quiet_run[OF nrq2 q2'] r2' by (simp add: w3_def)
  have p3: "fst (writer cfg c ((e1, f1) # q1 @ (e2, f2) # q2) w) = w3"
  proof -
    have "fst (writer cfg c (((e1, f1) # q1 @ [(e2, f2)]) @ q2) w) = fst (writer cfg c q2 w2')"
      by (simp only: writer_append p2 fst_conv)
    then show ?thesis by (simp add: w3_def)
  qed
  have p4: "fst (writer cfg c ((e1, f1) # q1 @ (e2, f2) # q2 @ [(e3, f3)]) w) = w4"
  proof -
    have "fst (writer cfg c (((e1, f1) # q1 @ (e2, f2) # q2) @ [(e3, f3)]) w) = fst (writer cfg c [(e3, f3)] w3)"
      by (simp only: writer_append p3 fst_conv)
    then show ?thesis using r3 by (simp add: w4_def split_beta)
  qed
  have p5: "writer cfg c ((e1, f1) # q1 @ (e2, f2) # q2 @ (e3, f3) # inp) w =
     (fst (writer cfg c inp w4),
      snd (writer cfg c ((e1, f1) # q1 @ (e2, f2) # q2 @ [(e3, f3)]) w) @ snd (writer cfg c inp w4))"
  proof -
    have "writer cfg c (((e1, f1) # q1 @ (e2, f2) # q2 @ [(e3, f3)]) @ inp) w =
     (fst (writer cfg c inp w4),
      snd (writer cfg c ((e1, f1) # q1 @ (e2, f2) # q2 @ [(e3, f3)]) w) @ snd (writer cfg c inp w4))"
      by (simp only: writer_append p4)
    then show ?thesis by simp
  qed
  text \<open>The strikes counter along the run.\<close>
  have k1: "kv (st w1) (strikes_key c) = Some (1, Some (now e1 + 120000))"
    using v1 s0 by (simp add: w1_def strikes_after_iter[OF nr1] bumped_def)
  have k2: "kv (st w2) (strikes_key c) = Some (1, Some (now e1 + 120000))"
    using quiet_run[OF nrq1 qa[folded w1_def]] k1 by (simp add: w2_def)
  have v2': "violation c e2 f2 w2" using v2 by (simp only: p1)
  have k2': "kv (st w2') (strikes_key c) = Some (2, Some (now e1 + 120000))"
    using v2' k2 t2 by (simp add: w2'_def strikes_after_iter[OF nr2] bumped_def lookup_def)
  have k3: "kv (st w3) (strikes_key c) = Some (2, Some (now e1 + 120000))"
    using quiet_run[OF nrq2 q2'] k2' by (simp add: w3_def)
  have v3': "violation c e3 f3 w3" using v3 by (simp only: p3)
  have sk3: "fst (redis_incr (st w3) (now e3) (strikes_key c)) = 3"
    using k3 t3 by (simp add: redis_incr_def lookup_def)
  have k4: "kv (st w4) (strikes_key c) = Some (3, Some (now e1 + 120000))"
    using v3' k3 t3 by (simp add: w4_def strikes_after_iter[OF nr3] bumped_def lookup_def)
  have bk: "kv (st w4) (block_key c) = Some (1, Some (now e3 + 60000))"
    using v3' sk3 by (simp add: w4_def block_after_iter[OF nr3])
  have v3v: "valid c e3 f3" and v3b: "redis_ttl (st w3) (now e3) (block_key c) \<le> 0"
    and v3c: "fst (redis_incr (st w3) (now e3) (count_key c)) > 5"
    using v3' by (simp_all add: violation_def)
  have sk3': "fst (redis_incr (st w3) (now e3) (strikes_key c)) \<ge> 3" using sk3 by simp
  note step = third_strike_step[OF v3v nr3 v3b v3c sk3', of cfg]
  have o3: "snd (writer_iter cfg c e3 f3 w3) = \<lparr>sent = [blocked_reply (cid_of e3 f3)], published = []\<rparr>"
    by (simp add: step)
  have r4: "running w4" using r3 by (simp add: w4_def running_writer_iter[OF np(3)])
  have ttl: "redis_ttl (st w4) t (block_key c) =
      (if t \<le> now e3 + 60000 then (now e3 + 60000 - t + 500) div 1000 else - 2)" for t
    by (rule redis_ttl_set[OF bk])
  have fol1: "valid c e f \<and> \<not> raises e CTtl \<and> redis_ttl (st w4) (now e) (block_key c) > 0"
    if "(e, f) \<in> set inp" for e f
    using fol[OF that] by (simp add: redis_ttl_positive[OF bk])
  note br = blocked_run[OF r4 fol1, of inp cfg]
  have m: "map (\<lambda>(e, f). \<lparr>sent = [blocked_ttl_reply (redis_ttl (st w4) (now e) (block_key c)) (cid_of e f)],
                         published = []\<rparr>) inp =
           map (\<lambda>(e, f). \<lparr>sent = [blocked_ttl_reply ((now e3 + 60000 - now e + 500) div 1000) (cid_of e f)],
                         published = []\<rparr>) inp"
  proof (rule map_cong[OF refl])
    fix x assume x: "x \<in> set inp"
    obtain e f where ef: "x = (e, f)" by (cases x)
    have "now e + 500 \<le> now e3 + 60000" using fol[of e f] x ef by simp
    then have "redis_ttl (st w4) (now e) (block_key c) = (now e3 + 60000 - now e + 500) div 1000"
      by (simp add: ttl)
    then show "(case x of (e, f) \<Rightarrow> \<lparr>sent = [blocked_ttl_reply (redis_ttl (st w4) (now e) (block_key c)) (cid_of e f)],
                         published = []\<rparr>) =
          (case x of (e, f) \<Rightarrow> \<lparr>sent = [blocked_ttl_reply ((now e3 + 60000 - now e + 500) div 1000) (cid_of e f)],
                         published = []\<rparr>)"
      by (simp add: ef)
  qed
  have wr: "writer cfg c ((e3, f3) # inp) w3 =
      (fst (writer cfg c inp w4), snd (writer_iter cfg c e3 f3 w3) # snd (writer cfg c inp w4))"
    using r3 by (simp add: w4_def split_beta)
  have a: "snd (writer cfg c ((e3, f3) # inp) w3) =
           \<lparr>sent = [blocked_reply (cid_of e3 f3)], published = []\<rparr> #
           map (\<lambda>(e, f). \<lparr>sent = [blocked_ttl_reply ((now e3 + 60000 - now e + 500) div 1000) (cid_of e f)],
                         published = []\<rparr>) inp"
    unfolding wr using br m o3 by simp
  have b: "st (fst (writer cfg c ((e1, f1) # q1 @ (e2, f2) # q2 @ (e3, f3) # inp) w)) = st w4"
    and c: "running (fst (writer cfg c ((e1, f1) # q1 @ (e2, f2) # q2 @ (e3, f3) # inp) w))"
    unfolding p5 using br by simp_all
  have d: "rp_code (blocked_reply cid) = ''blocked'' \<and> rp_retry_after (blocked_reply cid) = Some 60
       \<and> rp_code (blocked_ttl_reply x cid) = ''blocked''
       \<and> rp_retry_after (blocked_ttl_reply x cid) = Some x"
    by (simp add: blocked_reply_def blocked_ttl_reply_def)
  have mono: "\<forall>t t'. t \<le> t' \<and> t' \<le> now e3 + 60000 \<longrightarrow>
      redis_ttl (st w4) t' (block_key c) \<le> redis_ttl (st w4) t (block_key c)"
    using redis_ttl_mono[OF bk] by blast
  have le60: "\<forall>t. now e3 \<le> t \<longrightarrow> redis_ttl (st w4) t (block_key c) \<le> 60"
    using redis_ttl_bound[OF bk] by blast
  have ttl': "\<forall>t. redis_ttl (st w4) t (block_key c) =
      (if t \<le> now e3 + 60000 then (now e3 + 60000 - t + 500) div 1000 else - 2)"
    using ttl by blast
  show ?thesis
    unfolding p3 p4 using a b c k4 bk ttl' mono le60 d by (intro conjI) simp_all
qed

text \<open>
  An instance: the sixth frame of second 0 is the first violation, the sixth frame of
  second 50 the second one and the sixth frame of second 100 the third one; the frames in
  between are challenged and counted, but are no violations. The sender is blocked until
  second 160: frames at seconds 101, 130 and 159.5 are answered \<^verbatim>\<open>blocked\<close>.
\<close>

theorem blocked_for_sixty_seconds_witness:
  "violation alice (env_at 0) hi (fst (writer cfg0 alice (burst 5 0 hi) w0))
   \<and> quiet cfg0 alice (burst 5 50 hi)
        (fst (writer_iter cfg0 alice (env_at 0) hi (fst (writer cfg0 alice (burst 5 0 hi) w0))))
   \<and> violation alice (env_at 50) hi
        (fst (writer cfg0 alice ((env_at 0, hi) # burst 5 50 hi) (fst (writer cfg0 alice (burst 5 0 hi) w0))))
   \<and> violation alice (env_at 100) hi
        (fst (writer cfg0 alice ((env_at 0, hi) # burst 5 50 hi @ (env_at 50, hi) # burst 5 100 hi) (fst (writer cfg0 alice (burst 5 0 hi) w0))))
   \<and> map (map rp_retry_after \<circ> sent)
        (snd (writer cfg0 alice
               ((env_at 100, hi) # [(env_at 101, hi), (env_at 130, hi), ((env_at 159)\<lparr>now := 159500\<rparr>, hi)])
               (fst (writer cfg0 alice ((env_at 0, hi) # burst 5 50 hi @ (env_at 50, hi) # burst 5 100 hi) (fst (writer cfg0 alice (burst 5 0 hi) w0))))))
      = [[Some 60], [Some 59], [Some 30], [Some 1]]
   \<and> map published
        (snd (writer cfg0 alice
               ((env_at 100, hi) # [(env_at 101, hi), (env_at 130, hi), ((env_at 159)\<lparr>now := 159500\<rparr>, hi)])
               (fst (writer cfg0 alice ((env_at 0, hi) # burst 5 50 hi @ (env_at 50, hi) # burst 5 100 hi) (fst (writer cfg0 alice (burst 5 0 hi) w0))))))
      = [[], [], [], []]
   \<and> kv (st (fst (writer cfg0 alice ((env_at 0, hi) # burst 5 50 hi @ (env_at 50, hi) # burst 5 100 hi @ [(env_at 100, hi)])
                    (fst (writer cfg0 alice (burst 5 0 hi) w0))))) (strikes_key alice)
      = Some (3, Some 120000)
   \<and> kv (st (fst (writer cfg0 alice ((env_at 0, hi) # burst 5 50 hi @ (env_at 50, hi) # burst 5 100 hi @ [(env_at 100, hi)])
                    (fst (writer cfg0 alice (burst 5 0 hi) w0))))) (block_key alice)
      = Some (1, Some 160000)"
proof -
  let ?w = "fst (writer cfg0 alice (burst 5 0 hi) w0)"
  let ?inp = "[(env_at 101, hi), (env_at 130, hi), ((env_at 159)\<lparr>now := 159500\<rparr>, hi)]"
  have n: "now (env_at 0) = 0" "now (env_at 50) = 50000" "now (env_at 100) = 100000"
    by (simp_all add: env_at_def)
  have r: "running ?w" by code_simp
  have nr: "no_raise e"
    if "(e, f) \<in> set ((env_at 0, hi) # burst 5 50 hi @ (env_at 50, hi) # burst 5 100 hi @ [(env_at 100, hi)])"
    for e f
    using that by (auto simp: burst_def no_raise_env_at)
  have s0: "lookup (st ?w) (now (env_at 0)) (strikes_key alice) = None" by code_simp
  have v1: "violation alice (env_at 0) hi ?w" by code_simp
  have qa: "quiet cfg0 alice (burst 5 50 hi) (fst (writer_iter cfg0 alice (env_at 0) hi ?w))"
    by code_simp
  have v2: "violation alice (env_at 50) hi (fst (writer cfg0 alice ((env_at 0, hi) # burst 5 50 hi) ?w))"
    by code_simp
  have t2: "now (env_at 50) \<le> now (env_at 0) + 120000" by (simp add: n)
  have qb: "quiet cfg0 alice (burst 5 100 hi)
              (fst (writer cfg0 alice ((env_at 0, hi) # burst 5 50 hi @ [(env_at 50, hi)]) ?w))"
    by code_simp
  have v3: "violation alice (env_at 100) hi (fst (writer cfg0 alice ((env_at 0, hi) # burst 5 50 hi @ (env_at 50, hi) # burst 5 100 hi) ?w))"
    by code_simp
  have t3: "now (env_at 100) \<le> now (env_at 0) + 120000" by (simp add: n)
  have fol: "valid alice e f \<and> \<not> raises e CTtl \<and> now e + 500 \<le> now (env_at 100) + 60000"
    if "(e, f) \<in> set ?inp" for e f
    using that by (auto simp: valid_hi) (simp_all add: env_at_def)
  note th = blocked_for_sixty_seconds[where cfg = cfg0 and inp = ?inp, OF r nr s0 v1 qa v2 t2 qb v3 t3 fol]
  have outs: "snd (writer cfg0 alice ((env_at 100, hi) # ?inp) (fst (writer cfg0 alice ((env_at 0, hi) # burst 5 50 hi @ (env_at 50, hi) # burst 5 100 hi) ?w))) =
           \<lparr>sent = [blocked_reply (cid_of (env_at 100) hi)], published = []\<rparr> #
           map (\<lambda>(e, f). \<lparr>sent = [blocked_ttl_reply ((now (env_at 100) + 60000 - now e + 500) div 1000) (cid_of e f)],
                         published = []\<rparr>) ?inp"
    using th by (rule conjunct1)
  have m1: "map (map rp_retry_after \<circ> sent)
        (snd (writer cfg0 alice ((env_at 100, hi) # ?inp) (fst (writer cfg0 alice ((env_at 0, hi) # burst 5 50 hi @ (env_at 50, hi) # burst 5 100 hi) ?w))))
      = [[Some 60], [Some 59], [Some 30], [Some 1]]"
    unfolding outs by (simp add: blocked_reply_def blocked_ttl_reply_def) (simp add: env_at_def)
  have m2: "map published
        (snd (writer cfg0 alice ((env_at 100, hi) # ?inp) (fst (writer cfg0 alice ((env_at 0, hi) # burst 5 50 hi @ (env_at 50, hi) # burst 5 100 hi) ?w))))
      = [[], [], [], []]"
    unfolding outs by simp
  have k: "kv (st (fst (writer cfg0 alice ((env_at 0, hi) # burst 5 50 hi @ (env_at 50, hi) # burst 5 100 hi @ [(env_at 100, hi)]) ?w))) (strikes_key alice)
      = Some (3, Some (now (env_at 0) + 120000))"
    using conjunct1[OF conjunct2[OF th]] by simp
  have b: "kv (st (fst (writer cfg0 alice ((env_at 0, hi) # burst 5 50 hi @ (env_at 50, hi) # burst 5 100 hi @ [(env_at 100, hi)]) ?w))) (block_key alice)
      = Some (1, Some (now (env_at 100) + 60000))"
    using conjunct1[OF conjunct2[OF conjunct2[OF th]]] by simp
  have k': "kv (st (fst (writer cfg0 alice ((env_at 0, hi) # burst 5 50 hi @ (env_at 50, hi) # burst 5 100 hi @ [(env_at 100, hi)]) ?w))) (strikes_key alice)
      = Some (3, Some 120000)"
    unfolding k n by simp
  have b': "kv (st (fst (writer cfg0 alice ((env_at 0, hi) # burst 5 50 hi @ (env_at 50, hi) # burst 5 100 hi @ [(env_at 100, hi)]) ?w))) (block_key alice)
      = Some (1, Some 160000)"
    unfolding b n by simp
  from v1 qa v2 v3 m1 m2 k' b' show ?thesis by (intro conjI)
qed

text \<open>
  Claim C3 as stated fails in three ways. A blocked sender that sends an oversized message
  is answered \<^verbatim>\<open>too_long\<close>, not \<^verbatim>\<open>blocked\<close>: validation comes before the rate
  limiter. During the last half second of the block flag its remaining time is positive
  but \<^verbatim>\<open>TTL\<close> replies 0: a frame that comes 59.7 seconds after the block is not
  answered \<^verbatim>\<open>blocked\<close>, and the burst counter is incremented. And three violations
  within 120 seconds need not block: the strikes key expires 120 seconds after the first
  strike it counted, so of four violations at seconds 0, 100, 125 and 150 the last three,
  50 seconds apart, count as strikes 2, 1 and 2, and no block is set.
\<close>

theorem block_claim_fails:
  "0 < redis_ttl (st (fst (writer cfg0 alice (burst 8 0 hi) w0))) 1000 (block_key alice)
   \<and> map rp_code (sent (snd (writer_iter cfg0 alice (env_at 1) oversized
                              (fst (writer cfg0 alice (burst 8 0 hi) w0)))))
       = [''too_long'']
   \<and> lookup (st (fst (writer cfg0 alice (burst 8 0 hi) w0))) 59700 (block_key alice)
       = Some (1, Some 60000)
   \<and> map rp_code (sent (snd (writer_iter cfg0 alice ((env_at 59)\<lparr>now := 59700\<rparr>) hi
                              (fst (writer cfg0 alice (burst 8 0 hi) w0)))))
       = [''challenge_required'']
   \<and> kv (st (fst (writer_iter cfg0 alice ((env_at 59)\<lparr>now := 59700\<rparr>) hi
                    (fst (writer cfg0 alice (burst 8 0 hi) w0))))) (count_key alice)
       = Some (1, Some 69700)
   \<and> map (map rp_code \<circ> sent)
        (snd (writer cfg0 alice (burst 6 0 hi @ burst 6 100 hi @ burst 6 125 hi @ burst 6 150 hi) w0))
       = replicate 5 [] @ replicate 19 [''challenge_required'']
   \<and> kv (st (fst (writer cfg0 alice
                    (burst 6 0 hi @ burst 6 100 hi @ burst 6 125 hi @ burst 6 150 hi) w0)))
        (block_key alice) = None
   \<and> kv (st (fst (writer cfg0 alice
                    (burst 6 0 hi @ burst 6 100 hi @ burst 6 125 hi @ burst 6 150 hi) w0)))
        (strikes_key alice) = Some (2, Some 245000)"
proof -
  have a: "0 < redis_ttl (st (fst (writer cfg0 alice (burst 8 0 hi) w0))) 1000 (block_key alice)"
    by code_simp
  have b: "map rp_code (sent (snd (writer_iter cfg0 alice (env_at 1) oversized
                              (fst (writer cfg0 alice (burst 8 0 hi) w0)))))
       = [''too_long'']"
    by (simp add: writer_iter_rejected text_of_oversized authenticated_alice too_long_reply_def)
  have h1: "lookup (st (fst (writer cfg0 alice (burst 8 0 hi) w0))) 59700 (block_key alice)
       = Some (1, Some 60000)"
    by code_simp
  have h2: "map rp_code (sent (snd (writer_iter cfg0 alice ((env_at 59)\<lparr>now := 59700\<rparr>) hi
                              (fst (writer cfg0 alice (burst 8 0 hi) w0)))))
       = [''challenge_required'']"
    by code_simp
  have h3: "kv (st (fst (writer_iter cfg0 alice ((env_at 59)\<lparr>now := 59700\<rparr>) hi
                    (fst (writer cfg0 alice (burst 8 0 hi) w0))))) (count_key alice)
       = Some (1, Some 69700)"
    by code_simp
  have c: "map (map rp_code \<circ> sent)
        (snd (writer cfg0 alice (burst 6 0 hi @ burst 6 100 hi @ burst 6 125 hi @ burst 6 150 hi) w0))
       = replicate 5 [] @ replicate 19 [''challenge_required'']"
    by code_simp
  have d: "kv (st (fst (writer cfg0 alice
                    (burst 6 0 hi @ burst 6 100 hi @ burst 6 125 hi @ burst 6 150 hi) w0)))
        (block_key alice) = None"
    by code_simp
  have e: "kv (st (fst (writer cfg0 alice
                    (burst 6 0 hi @ burst 6 100 hi @ burst 6 125 hi @ burst 6 150 hi) w0)))
        (strikes_key alice) = Some (2, Some 245000)"
    by code_simp
  from a b h1 h2 h3 c d e show ?thesis by (intro conjI)
qed

section \<open>Failures of the backing store\<close>

text \<open>
  The calls of the rate limiter and of the history log are inside \<^verbatim>\<open>try\<close> blocks whose
  \<^verbatim>\<open>except\<close> clause ignores the failure: as long as \<^verbatim>\<open>redis.publish\<close> does not
  raise, an iteration leaves the loop running. So a frame whose history append fails and a
  frame whose first rate-limiter call fails are both published, with no reply.
\<close>

lemma guarded_failures_keep_running:
  "\<not> raises e CPublish \<Longrightarrow> running (fst (writer_iter cfg c e f w)) = running w"
  by (simp add: writer_iter_def publish_def Let_def split: outcome.splits)

lemma guarded_failures_example:
  "map (map ev_text \<circ> published)
     (snd (writer cfg0 alice [(env_failing CLpush 0, hi), (env_failing CIncrCount 1, hi)] w0))
     = [[''hi''], [''hi'']]
   \<and> map sent (snd (writer cfg0 alice [(env_failing CLpush 0, hi), (env_failing CIncrCount 1, hi)] w0))
     = [[], []]
   \<and> running (fst (writer cfg0 alice [(env_failing CLpush 0, hi), (env_failing CIncrCount 1, hi)] w0))"
  by code_simp

text \<open>
  Claim C4. The call \<^verbatim>\<open>redis.publish\<close> of line 185 is in no \<^verbatim>\<open>try\<close> block of its
  own. When it raises for the first of two frames, the exception leaves the loop: no reply
  is sent and nothing is published, but the loop is no longer running and the second frame
  is never read, although the backing store works again by then. With no failure both
  frames are published.
\<close>

theorem publish_failure_ends_inbound_relay:
  "snd (writer cfg0 alice [(env_failing CPublish 0, hi), (env_at 1, hi)] w0)
     = [\<lparr>sent = [], published = []\<rparr>]
   \<and> \<not> running (fst (writer cfg0 alice [(env_failing CPublish 0, hi), (env_at 1, hi)] w0))
   \<and> map (map ev_text \<circ> published) (snd (writer cfg0 alice [(env_at 0, hi), (env_at 1, hi)] w0))
     = [[''hi''], [''hi'']]"
  by code_simp

section \<open>Senders within the burst limit\<close>




section \<open>After a passing verification\<close>

text \<open>
  Claim C6, as amended. Let no call of the backing store raise. When the challenge flag of
  the sender is pending, the sender is not blocked, and a valid frame that decodes to an
  object carries a token that passes verification, and that frame is not itself a third
  strike, the frame is published
  with no reply and the flag is cleared in the same iteration. If the burst counter of the
  sender, after its increment for the next valid frame, is at most 5, that frame is
  published with no reply too, and the flag is still clear after it.
\<close>

theorem verified_then_next_publishes:
  assumes run: "running w"
    and v1: "valid c e1 f1" and nr1: "no_raise e1" and d1: "loads f1 = Some (Dict d1)"
    and tok: "token_passes cfg c e1 d1"
    and pend: "lookup (st w) (now e1) (challenge_key c) \<noteq> None"
    and nb: "redis_ttl (st w) (now e1) (block_key c) \<le> 0"
    and n3: "\<not> (fst (redis_incr (st w) (now e1) (count_key c)) > 5
               \<and> fst (redis_incr (st w) (now e1) (strikes_key c)) \<ge> 3)"
    and v2: "valid c e2 f2" and nr2: "no_raise e2" and t: "now e1 \<le> now e2"
    and lim: "fst (redis_incr (st (fst (writer_iter cfg c e1 f1 w))) (now e2) (count_key c)) \<le> 5"
  shows "snd (writer cfg c [(e1, f1), (e2, f2)] w) =
           [\<lparr>sent = [], published = [event_of c e1 f1]\<rparr>, \<lparr>sent = [], published = [event_of c e2 f2]\<rparr>]
       \<and> kv (st (fst (writer_iter cfg c e1 f1 w))) (challenge_key c) = None
       \<and> kv (st (fst (writer cfg c [(e1, f1), (e2, f2)] w))) (challenge_key c) = None"
proof -
  define w1 where "w1 = fst (writer_iter cfg c e1 f1 w)"
  note s1 = verified_step[OF v1 nr1 d1 tok pend nb n3]
  have o1: "snd (writer_iter cfg c e1 f1 w) = \<lparr>sent = [], published = [event_of c e1 f1]\<rparr>"
    and ch1: "kv (st w1) (challenge_key c) = None"
    and bk1: "kv (st w1) (block_key c) = kv (st w) (block_key c)"
    and r1: "running w1"
    using s1 run by (simp_all add: w1_def)
  have step2: "writer_iter cfg c e2 f2 w1 =
     (w1\<lparr>payload := p_payload (parse_frame e2 f2 (payload w1)),
        st := (st w1)\<lparr>kv := (kv (st w1))(count_key c \<mapsto> bumped (st w1) (now e2) (count_key c) 10),
                     hist := take 50 (event_of c e2 f2 # hist (st w1))\<rparr>\<rparr>,
      \<lparr>sent = [], published = [event_of c e2 f2]\<rparr>)"
  proof (rule step_within_limit[OF v2 nr2])
    show "redis_ttl (st w1) (now e2) (block_key c) \<le> 0" by (rule redis_ttl_later[OF nb t bk1])
    show "fst (bumped (st w1) (now e2) (count_key c) 10) \<le> 5" using lim by (simp add: fst_bumped w1_def)
    show "lookup (st w1) (now e2) (challenge_key c) = None" using ch1 by (rule lookup_absent)
  qed
  have wr: "writer cfg c [(e1, f1), (e2, f2)] w =
      (fst (writer_iter cfg c e2 f2 w1), [snd (writer_iter cfg c e1 f1 w), snd (writer_iter cfg c e2 f2 w1)])"
    using run r1 by (auto simp: w1_def split: prod.splits)
  show ?thesis
    unfolding wr using o1 ch1 by (simp add: step2) (simp add: w1_def)
qed

text \<open>
  An instance: six frames in second 0 leave the flag pending; four frames in second 20 are
  challenged; the fifth carries the token and is published; the next frame, in second 31,
  opens a new window and is published.
\<close>

theorem verified_then_next_publishes_witness:
  "lookup (st (fst (writer cfg0 alice (burst 6 0 hi @ burst 4 20 hi) w0))) 20000 (challenge_key alice) \<noteq> None
   \<and> token_passes cfg0 alice (env_at 20) [''text'' \<mapsto> JStr ''hi'', ''cf'' \<mapsto> JStr ''good'']
   \<and> fst (redis_incr (st (fst (writer cfg0 alice (burst 6 0 hi @ burst 4 20 hi) w0))) 20000 (count_key alice)) = 5
   \<and> map sent (snd (writer cfg0 alice [(env_at 20, hi_verified), (env_at 31, hi)]
                      (fst (writer cfg0 alice (burst 6 0 hi @ burst 4 20 hi) w0)))) = [[], []]
   \<and> map (map ev_text \<circ> published)
        (snd (writer cfg0 alice [(env_at 20, hi_verified), (env_at 31, hi)]
                      (fst (writer cfg0 alice (burst 6 0 hi @ burst 4 20 hi) w0)))) = [[''hi''], [''hi'']]
   \<and> kv (st (fst (writer_iter cfg0 alice (env_at 20) hi_verified
                      (fst (writer cfg0 alice (burst 6 0 hi @ burst 4 20 hi) w0))))) (challenge_key alice) = None"
proof -
  let ?w = "fst (writer cfg0 alice (burst 6 0 hi @ burst 4 20 hi) w0)"
  have n20: "now (env_at 20) = 20000" and n31: "now (env_at 31) = 31000"
    by (simp_all add: env_at_def)
  have run: "running ?w" by code_simp
  have pend: "lookup (st ?w) 20000 (challenge_key alice) \<noteq> None" by code_simp
  have nb: "redis_ttl (st ?w) 20000 (block_key alice) \<le> 0" by code_simp
  have cnt: "fst (redis_incr (st ?w) 20000 (count_key alice)) = 5" by code_simp
  have lim: "fst (redis_incr (st (fst (writer_iter cfg0 alice (env_at 20) hi_verified ?w))) 31000 (count_key alice)) \<le> 5"
    by code_simp
  have pend': "lookup (st ?w) (now (env_at 20)) (challenge_key alice) \<noteq> None"
    unfolding n20 n31 by (rule pend)
  have nb': "redis_ttl (st ?w) (now (env_at 20)) (block_key alice) \<le> 0"
    unfolding n20 n31 by (rule nb)
  have n3: "\<not> (fst (redis_incr (st ?w) (now (env_at 20)) (count_key alice)) > 5
               \<and> fst (redis_incr (st ?w) (now (env_at 20)) (strikes_key alice)) \<ge> 3)"
    unfolding n20 n31 cnt by simp
  have lim': "fst (redis_incr (st (fst (writer_iter cfg0 alice (env_at 20) hi_verified ?w)))
                 (now (env_at 31)) (count_key alice)) \<le> 5"
    unfolding n20 n31 by (rule lim)
  have t: "now (env_at 20) \<le> now (env_at 31)" by (simp add: n20 n31)
  note th = verified_then_next_publishes[OF run valid_hi(2) no_raise_env_at hi_verified_is_dict
      token_good pend' nb' n3 valid_hi(1) no_raise_env_at t lim']
  have outs: "snd (writer cfg0 alice [(env_at 20, hi_verified), (env_at 31, hi)] ?w) =
           [\<lparr>sent = [], published = [event_of alice (env_at 20) hi_verified]\<rparr>,
            \<lparr>sent = [], published = [event_of alice (env_at 31) hi]\<rparr>]"
    using th by (rule conjunct1)
  have ch: "kv (st (fst (writer_iter cfg0 alice (env_at 20) hi_verified ?w))) (challenge_key alice) = None"
    using th by blast
  have m1: "map sent (snd (writer cfg0 alice [(env_at 20, hi_verified), (env_at 31, hi)] ?w)) = [[], []]"
    unfolding outs by simp
  have m2: "map (map ev_text \<circ> published)
        (snd (writer cfg0 alice [(env_at 20, hi_verified), (env_at 31, hi)] ?w)) = [[''hi''], [''hi'']]"
    unfolding outs by (simp add: ev_text_event_of text_of_hi text_of_hi_verified)
  from pend token_good[of 20] cnt m1 m2 ch show ?thesis by (intro conjI)
qed

text \<open>
  The claim as stated, without the condition on the burst counter, fails: the rejected
  frames of second 20 were counted, so that the frame of second 21, the very next valid
  frame after the passing verification, is the sixth of its window and is challenged again.
\<close>

theorem next_message_challenged_again:
  "lookup (st (fst (writer cfg0 alice (burst 6 0 hi @ burst 4 20 hi) w0))) 20000 (challenge_key alice) \<noteq> None
   \<and> token_passes cfg0 alice (env_at 20) [''text'' \<mapsto> JStr ''hi'', ''cf'' \<mapsto> JStr ''good'']
   \<and> sent (snd (writer cfg0 alice
              (burst 6 0 hi @ burst 4 20 hi @ [(env_at 20, hi_verified), (env_at 21, hi)]) w0) ! 10) = []
   \<and> map ev_text (published (snd (writer cfg0 alice
              (burst 6 0 hi @ burst 4 20 hi @ [(env_at 20, hi_verified), (env_at 21, hi)]) w0) ! 10)) = [''hi'']
   \<and> kv (st (fst (writer cfg0 alice (burst 6 0 hi @ burst 4 20 hi @ [(env_at 20, hi_verified)]) w0)))
        (challenge_key alice) = None
   \<and> map rp_code (sent (snd (writer cfg0 alice
              (burst 6 0 hi @ burst 4 20 hi @ [(env_at 20, hi_verified), (env_at 21, hi)]) w0) ! 11))
       = [''challenge_required'']
   \<and> published (snd (writer cfg0 alice
              (burst 6 0 hi @ burst 4 20 hi @ [(env_at 20, hi_verified), (env_at 21, hi)]) w0) ! 11) = []"
proof -
  have a: "lookup (st (fst (writer cfg0 alice (burst 6 0 hi @ burst 4 20 hi) w0))) 20000 (challenge_key alice) \<noteq> None"
    by code_simp
  have b: "sent (snd (writer cfg0 alice
              (burst 6 0 hi @ burst 4 20 hi @ [(env_at 20, hi_verified), (env_at 21, hi)]) w0) ! 10) = []"
    by code_simp
  have c: "map ev_text (published (snd (writer cfg0 alice
              (burst 6 0 hi @ burst 4 20 hi @ [(env_at 20, hi_verified), (env_at 21, hi)]) w0) ! 10)) = [''hi'']"
    by code_simp
  have d: "kv (st (fst (writer cfg0 alice (burst 6 0 hi @ burst 4 20 hi @ [(env_at 20, hi_verified)]) w0)))
        (challenge_key alice) = None"
    by code_simp
  have e: "map rp_code (sent (snd (writer cfg0 alice
              (burst 6 0 hi @ burst 4 20 hi @ [(env_at 20, hi_verified), (env_at 21, hi)]) w0) ! 11))
       = [''challenge_required'']"
    by code_simp
  have f: "published (snd (writer cfg0 alice
              (burst 6 0 hi @ burst 4 20 hi @ [(env_at 20, hi_verified), (env_at 21, hi)]) w0) ! 11) = []"
    by code_simp
  from a token_good[of 20] b c d e f show ?thesis by (intro conjI)
qed

section \<open>When the challenge flag is set\<close>




section \<open>Oversized text\<close>

text \<open>
  Claim C8, as amended. A frame whose text, as the relay reads it, is longer than 2000
  characters is never published nor appended to the history, and leaves the backing store
  (so the rate-limit state) and the loop as they were, whatever the store holds. When the
  session has a display name, the sender is sent exactly one error reply, with code
  \<^verbatim>\<open>too_long\<close>; a session without a display name is sent nothing, since the test of
  the display name comes before the test of the length.
\<close>

theorem oversized_text_rejected:
  assumes "length (text_of e f) > 2000"
  shows "sent (snd (writer_iter cfg c e f w)) =
           (if authenticated c then [too_long_reply (cid_of e f)] else [])
       \<and> rp_code (too_long_reply (cid_of e f)) = ''too_long''
       \<and> published (snd (writer_iter cfg c e f w)) = []
       \<and> st (fst (writer_iter cfg c e f w)) = st w
       \<and> running (fst (writer_iter cfg c e f w)) = running w"
proof -
  have ne: "text_of e f \<noteq> []" using assms by auto
  have "text_of e f = [] \<or> \<not> authenticated c \<or> length (text_of e f) > 2000" using assms by simp
  from writer_iter_rejected[OF this] ne show ?thesis by (simp add: too_long_reply_def)
qed

theorem oversized_text_rejected_witness:
  "length (text_of (env_at 0) oversized) > 2000
   \<and> map rp_code (sent (snd (writer_iter cfg0 alice (env_at 0) oversized w0))) = [''too_long'']
   \<and> published (snd (writer_iter cfg0 alice (env_at 0) oversized w0)) = []
   \<and> hist (st (fst (writer_iter cfg0 alice (env_at 0) oversized w0))) = []"
proof -
  have h: "length (text_of (env_at 0) oversized) > 2000" by (simp add: text_of_oversized)
  from oversized_text_rejected[OF h, of cfg0 alice w0] h show ?thesis
    by (simp add: authenticated_alice too_long_reply_def w0_def empty_store_def)
qed

text \<open>
  Claim C8 as stated fails for a session that has no resolved identity: its oversized
  frame is ignored without any reply.
\<close>

theorem oversized_text_anonymous_no_reply:
  "length (text_of (env_at 0) oversized) > 2000
   \<and> sent (snd (writer_iter cfg0 anonymous (env_at 0) oversized w0)) = []"
  by (simp add: writer_iter_rejected not_authenticated_anonymous text_of_oversized)

section \<open>Validation rejections and the rate-limit state\<close>

text \<open>
  Claim C9. A frame rejected at the validation stage (its text is empty after trimming, the
  session has no display name, or the text is longer than 2000 characters) leaves the
  backing store as it was, and so the count, strikes, challenge and block keys of every
  sender; what the iteration sends and publishes, and what it does to the loop, is the same
  whatever the store holds, so the rate-limit state is not read either.
\<close>

theorem validation_rejection_leaves_rate_limit_state:
  assumes "text_of e f = [] \<or> \<not> authenticated c \<or> length (text_of e f) > 2000"
  shows "st (fst (writer_iter cfg c e f w)) = st w
       \<and> (\<forall>c'. kv (st (fst (writer_iter cfg c e f w))) (count_key c') = kv (st w) (count_key c')
              \<and> kv (st (fst (writer_iter cfg c e f w))) (strikes_key c') = kv (st w) (strikes_key c')
              \<and> kv (st (fst (writer_iter cfg c e f w))) (challenge_key c') = kv (st w) (challenge_key c')
              \<and> kv (st (fst (writer_iter cfg c e f w))) (block_key c') = kv (st w) (block_key c'))
       \<and> (\<forall>s'. snd (writer_iter cfg c e f (w\<lparr>st := s'\<rparr>)) = snd (writer_iter cfg c e f w)
              \<and> payload (fst (writer_iter cfg c e f (w\<lparr>st := s'\<rparr>))) = payload (fst (writer_iter cfg c e f w))
              \<and> running (fst (writer_iter cfg c e f (w\<lparr>st := s'\<rparr>))) = running (fst (writer_iter cfg c e f w)))"
  by (simp add: writer_iter_rejected[OF assms])

theorem validation_rejection_witness:
  "length (text_of (env_at 0) oversized) > 2000
   \<and> st (fst (writer_iter cfg0 alice (env_at 0) oversized w0)) = st w0"
proof -
  have h: "length (text_of (env_at 0) oversized) > 2000" by (simp add: text_of_oversized)
  then have "text_of (env_at 0) oversized = [] \<or> \<not> authenticated alice
      \<or> length (text_of (env_at 0) oversized) > 2000"
    by simp
  from validation_rejection_leaves_rate_limit_state[OF this, of cfg0 w0] h show ?thesis by simp
qed

section \<open>The user fields of a frame\<close>

text \<open>
  Claim C10, as amended. In every event published by the inbound relay the field
  \<^verbatim>\<open>user\<close> is the display name of the session. Two runs from the same state whose
  frames, one by one, are the same or decode to objects that differ at most in the fields
  \<^verbatim>\<open>user\<close> and \<^verbatim>\<open>username\<close>, with a field \<^verbatim>\<open>ts\<close> that \<^verbatim>\<open>int\<close> converts,
  send the same replies, publish the same events, leave the same backing store and stop at
  the same frame.
\<close>

theorem user_fields_have_no_effect:
  assumes "list_all2 (\<lambda>(e, f) (e', f'). e' = e \<and> user_variant e f f') inp inp'"
  shows "list_all (\<lambda>ot. list_all (\<lambda>ev. ev_user ev = display_name c) (published ot))
           (snd (writer cfg c inp w))
       \<and> snd (writer cfg c inp' w) = snd (writer cfg c inp w)
       \<and> st (fst (writer cfg c inp' w)) = st (fst (writer cfg c inp w))
       \<and> running (fst (writer cfg c inp' w)) = running (fst (writer cfg c inp w))"
  using variant_run[where w = w and w' = w and cfg = cfg and c = c, OF assms pv_rel_refl]
    published_user_run[where c = c and cfg = cfg and inp = inp and w = w]
  by simp

text \<open>
  An instance: a frame naming user \<^verbatim>\<open>a\<close> or user \<^verbatim>\<open>b\<close>, followed by a frame that
  is not JSON, for which the rate limiter reads the object decoded from the frame before.
\<close>

theorem user_fields_have_no_effect_witness:
  "map (map ev_text \<circ> published)
     (snd (writer cfg0 alice [(env_at 0, hi_as_a), (env_at 1, plain)] w0)) = [[''hi''], [''hello'']]
   \<and> list_all (\<lambda>ot. list_all (\<lambda>ev. ev_user ev = Some ''alice'') (published ot))
        (snd (writer cfg0 alice [(env_at 0, hi_as_a), (env_at 1, plain)] w0))
   \<and> snd (writer cfg0 alice [(env_at 0, hi_as_b), (env_at 1, plain)] w0)
       = snd (writer cfg0 alice [(env_at 0, hi_as_a), (env_at 1, plain)] w0)
   \<and> st (fst (writer cfg0 alice [(env_at 0, hi_as_b), (env_at 1, plain)] w0))
       = st (fst (writer cfg0 alice [(env_at 0, hi_as_a), (env_at 1, plain)] w0))"
proof -
  have sb: "same_but_user [''text'' \<mapsto> JStr ''hi'', ''user'' \<mapsto> JStr ''a'']
                          [''text'' \<mapsto> JStr ''hi'', ''user'' \<mapsto> JStr ''b'']"
    by (simp add: same_but_user_def)
  have uv: "user_variant (env_at 0) hi_as_a hi_as_b"
    by (simp add: user_variant_def hi_as_a_def hi_as_b_def sb dget_def por_def)
  have uv': "user_variant (env_at 1) plain plain"
    by (simp add: user_variant_def)
  have rel: "list_all2 (\<lambda>(e, f) (e', f'). e' = e \<and> user_variant e f f')
               [(env_at 0, hi_as_a), (env_at 1, plain)] [(env_at 0, hi_as_b), (env_at 1, plain)]"
    using uv uv' by simp
  have dn: "display_name alice = Some ''alice''"
    by (simp add: display_name_def alice_def)
  note th = user_fields_have_no_effect[OF rel, of alice cfg0 w0]
  have a: "map (map ev_text \<circ> published)
     (snd (writer cfg0 alice [(env_at 0, hi_as_a), (env_at 1, plain)] w0)) = [[''hi''], [''hello'']]"
    by code_simp
  have b: "list_all (\<lambda>ot. list_all (\<lambda>ev. ev_user ev = Some ''alice'') (published ot))
        (snd (writer cfg0 alice [(env_at 0, hi_as_a), (env_at 1, plain)] w0))"
    using conjunct1[OF th] unfolding dn .
  have c: "snd (writer cfg0 alice [(env_at 0, hi_as_b), (env_at 1, plain)] w0)
       = snd (writer cfg0 alice [(env_at 0, hi_as_a), (env_at 1, plain)] w0)"
    using th by blast
  have d: "st (fst (writer cfg0 alice [(env_at 0, hi_as_b), (env_at 1, plain)] w0))
       = st (fst (writer cfg0 alice [(env_at 0, hi_as_a), (env_at 1, plain)] w0))"
    using th by blast
  from a b c d show ?thesis by (intro conjI)
qed

text \<open>
  Without the condition on \<^verbatim>\<open>ts\<close> the second part of the claim fails. When
  \<^verbatim>\<open>int(payload.get("ts"))\<close> raises, the text published is the frame as received, user
  fields included: two frames that differ only in the field \<^verbatim>\<open>user\<close> are published, and
  logged, with different texts.
\<close>

theorem user_field_changes_published_text:
  "loads bad_ts_as_a = Some (Dict (hi_ts_x(''user'' \<mapsto> JStr ''a'')))
   \<and> loads bad_ts_as_b = Some (Dict (hi_ts_x(''user'' \<mapsto> JStr ''b'')))
   \<and> map ev_text (published (snd (writer_iter cfg0 alice (env_at 0) bad_ts_as_a w0))) = [raw bad_ts_as_a]
   \<and> map ev_text (published (snd (writer_iter cfg0 alice (env_at 0) bad_ts_as_b w0))) = [raw bad_ts_as_b]
   \<and> raw bad_ts_as_a \<noteq> raw bad_ts_as_b
   \<and> hist (st (fst (writer_iter cfg0 alice (env_at 0) bad_ts_as_a w0)))
       \<noteq> hist (st (fst (writer_iter cfg0 alice (env_at 0) bad_ts_as_b w0)))"
proof -
  have a: "loads bad_ts_as_a = Some (Dict (hi_ts_x(''user'' \<mapsto> JStr ''a'')))"
    by (simp add: bad_ts_as_a_def)
  have b: "loads bad_ts_as_b = Some (Dict (hi_ts_x(''user'' \<mapsto> JStr ''b'')))"
    by (simp add: bad_ts_as_b_def)
  have c: "map ev_text (published (snd (writer_iter cfg0 alice (env_at 0) bad_ts_as_a w0))) = [raw bad_ts_as_a]"
    by code_simp
  have d: "map ev_text (published (snd (writer_iter cfg0 alice (env_at 0) bad_ts_as_b w0))) = [raw bad_ts_as_b]"
    by code_simp
  have e: "raw bad_ts_as_a \<noteq> raw bad_ts_as_b"
    by (simp add: bad_ts_as_a_def bad_ts_as_b_def)
  have f: "hist (st (fst (writer_iter cfg0 alice (env_at 0) bad_ts_as_a w0)))
       \<noteq> hist (st (fst (writer_iter cfg0 alice (env_at 0) bad_ts_as_b w0)))"
    by code_simp
  from a b c d e f show ?thesis by (intro conjI)
qed

end
